theory Spec2Isabelle
  imports Complex_Main
begin

section \<open>PartiSn input deck production: zones of a structured mesh\<close>

text \<open>
  A shallow embedding of \<^verbatim>\<open>pyne/partisn.py\<close>: the coordinate system of the mesh
  (\<^verbatim>\<open>_get_coord_sys\<close>), the material library (\<^verbatim>\<open>_get_material_lib\<close>) and the three
  stages of \<^verbatim>\<open>_get_zones\<close> (cells of a voxel merged by material, voxels merged into
  zones, zone numbers laid out as an array).

  Python exceptions are values of \<open>error\<close>; a function that may raise returns
  \<open>error + 'a\<close>. Volume fractions and densities are Python floats; a float is modelled
  as the real number it stands for, and a sum of floats as the sum of the reals. The
  comparison of \<^verbatim>\<open>np.allclose\<close>, which numpy evaluates in double precision, is a
  parameter of the model. A Python dictionary that the code iterates over is an
  association list in iteration order; one that is only indexed is a map.
\<close>

datatype error = KeyError | ValueError | UnboundLocalError

subsection \<open>Zones of voxels: the deduplication loop of \<^verbatim>\<open>_get_zones\<close>\<close>

text \<open>
  One entry of the dictionary \<^verbatim>\<open>zones\<close> (and of \<^verbatim>\<open>zones_mats\<close>): the materials of a
  voxel and, at the same positions, their volume fractions.
\<close>

record zone_info =
  vol_frac :: "real list"
  mat :: "string list"

text \<open>
  \<^verbatim>\<open>np.allclose(a, b, rtol=1e-8)\<close>: the absolute tolerance keeps numpy's default
  \<^verbatim>\<open>atol=1e-8\<close>, and the test at each position is
  \<^verbatim>\<open>abs(a - b) <= atol + rtol * abs(b)\<close>, evaluated in IEEE double arithmetic. The
  model takes this test on two floats as the parameter \<open>cl\<close>; what a theorem needs of it
  is a hypothesis of the theorem (\<open>close_refl\<close>, \<open>close_bound\<close> below). Arrays of
  different lengths are broadcast when one of them has length one and raise
  \<^verbatim>\<open>ValueError\<close> otherwise.
\<close>

definition rtol :: real where
  "rtol = 1 / 10 ^ 8"

definition atol :: real where
  "atol = 1 / 10 ^ 8"

definition allclose :: "(real \<Rightarrow> real \<Rightarrow> bool) \<Rightarrow> real list \<Rightarrow> real list \<Rightarrow> error + bool" where
  "allclose cl a b =
     (if length a = length b then Inr (list_all2 cl a b)
      else if length a = 1 then Inr (list_all (\<lambda>v. cl (hd a) v) b)
      else if length b = 1 then Inr (list_all (\<lambda>v. cl v (hd b)) a)
      else Inl ValueError)"

text \<open>The four material lists that \<^verbatim>\<open>_get_zones\<close> sends to zone 0.\<close>

definition void_mats :: "string list list" where
  "void_mats = [[''mat:Vacuum''], [''mat:vacuum''], [''mat:graveyard''], [''mat:Graveyard'']]"

text \<open>
  The variables of the loop. \<^verbatim>\<open>zones_mats\<close> has the keys \<open>1, 2, \<dots>\<close> in the order they
  are added, which is the order CPython iterates them in; \<^verbatim>\<open>y\<close> is not bound before the
  first match, hence the option.
\<close>

record dedup_state =
  voxel_zone :: "nat \<rightharpoonup> nat"
  zones_mats :: "(nat \<times> zone_info) list"
  z_num :: nat
  match_flag :: bool
  first_flag :: bool
  y_num :: "nat option"

definition init_state :: dedup_state where
  "init_state = \<lparr>voxel_zone = Map.empty, zones_mats = [], z_num = 0,
                  match_flag = False, first_flag = True, y_num = None\<rparr>"

text \<open>
  The inner loop over \<^verbatim>\<open>zones_mats.iteritems()\<close>: it stops at the first zone with the same
  material list and close volume fractions, and sets \<^verbatim>\<open>match\<close> to false at every
  other zone it passes. Python's \<^verbatim>\<open>and\<close> does not call \<^verbatim>\<open>np.allclose\<close> when the
  material lists differ.
\<close>

fun scan_zones :: "(real \<Rightarrow> real \<Rightarrow> bool) \<Rightarrow> zone_info \<Rightarrow> (nat \<times> zone_info) list
    \<Rightarrow> bool \<Rightarrow> nat option \<Rightarrow> error + (bool \<times> nat option)" where
  "scan_zones cl vals [] m y = Inr (m, y)"
| "scan_zones cl vals ((zone, info) # rest) m y =
     (if mat vals = mat info then
        (case allclose cl (vol_frac vals) (vol_frac info) of
           Inl e \<Rightarrow> Inl e
         | Inr c \<Rightarrow> if c then Inr (True, Some zone) else scan_zones cl vals rest False y)
      else scan_zones cl vals rest False y)"

text \<open>The body of the outer loop, for the voxel \<open>i\<close> with the entry \<open>vals\<close>.\<close>

definition zone_step :: "(real \<Rightarrow> real \<Rightarrow> bool) \<Rightarrow> dedup_state \<Rightarrow> nat \<times> zone_info
    \<Rightarrow> error + dedup_state" where
  "zone_step cl st iv =
     (case iv of (i, vals) \<Rightarrow>
        (case scan_zones cl vals (zones_mats st) (match_flag st) (y_num st) of
           Inl e \<Rightarrow> Inl e
         | Inr (m, y) \<Rightarrow>
             (let st1 = st\<lparr>match_flag := m, y_num := y\<rparr> in
              if first_flag st1 \<or> \<not> m then
                if mat vals \<in> set void_mats then
                  Inr (st1\<lparr>voxel_zone := (voxel_zone st1)(i \<mapsto> 0)\<rparr>)
                else
                  Inr (st1\<lparr>z_num := z_num st1 + 1,
                           zones_mats := zones_mats st1 @ [(z_num st1 + 1, vals)],
                           voxel_zone := (voxel_zone st1)(i \<mapsto> z_num st1 + 1),
                           first_flag := False\<rparr>)
              else
                if mat vals \<in> set void_mats then
                  Inr (st1\<lparr>voxel_zone := (voxel_zone st1)(i \<mapsto> 0)\<rparr>)
                else
                  (case y of
                     None \<Rightarrow> Inl UnboundLocalError
                   | Some zn \<Rightarrow> Inr (st1\<lparr>voxel_zone := (voxel_zone st1)(i \<mapsto> zn)\<rparr>)))))"

fun zone_loop :: "(real \<Rightarrow> real \<Rightarrow> bool) \<Rightarrow> dedup_state \<Rightarrow> (nat \<times> zone_info) list
    \<Rightarrow> error + dedup_state" where
  "zone_loop cl st [] = Inr st"
| "zone_loop cl st (iv # rest) =
     (case zone_step cl st iv of Inl e \<Rightarrow> Inl e | Inr st' \<Rightarrow> zone_loop cl st' rest)"

text \<open>
  The loop from its initial variables, over the items of \<^verbatim>\<open>zones\<close> in iteration order.
\<close>

definition dedup :: "(real \<Rightarrow> real \<Rightarrow> bool) \<Rightarrow> (nat \<times> zone_info) list \<Rightarrow> error + dedup_state" where
  "dedup cl zones = zone_loop cl init_state zones"

text \<open>Reading the results of a run: the zone of a voxel, and the registered zones.\<close>

definition zone_of_voxel :: "(real \<Rightarrow> real \<Rightarrow> bool) \<Rightarrow> (nat \<times> zone_info) list \<Rightarrow> nat
    \<Rightarrow> nat option" where
  "zone_of_voxel cl zones i = (case dedup cl zones of Inl e \<Rightarrow> None | Inr st \<Rightarrow> voxel_zone st i)"

definition registry :: "(real \<Rightarrow> real \<Rightarrow> bool) \<Rightarrow> (nat \<times> zone_info) list
    \<Rightarrow> (nat \<times> zone_info) list" where
  "registry cl zones = (case dedup cl zones of Inl e \<Rightarrow> [] | Inr st \<Rightarrow> zones_mats st)"

subsection \<open>Cells of a voxel merged by material: the first half of \<^verbatim>\<open>_get_zones\<close>\<close>

text \<open>
  One entry of the dictionary \<^verbatim>\<open>voxel\<close>: the cells of a voxel and, at the same
  positions, their volume fractions (the key \<^verbatim>\<open>'vol_frac'\<close> of the source).
\<close>

record voxel_info =
  cell :: "nat list"
  cell_vol_frac :: "real list"

text \<open>
  A record of \<^verbatim>\<open>dagmc.discretize_geom\<close> is read at its first three positions: voxel
  number, cell number, volume fraction. The loop over the records creates the entry of a
  voxel at its first record and appends to both lists.
\<close>

definition voxel_step :: "(nat \<times> voxel_info) list \<Rightarrow> nat \<times> nat \<times> real
    \<Rightarrow> (nat \<times> voxel_info) list" where
  "voxel_step voxel r =
     (case r of (idx, c, f) \<Rightarrow>
        (let voxel1 = (if idx \<notin> set (map fst voxel)
                       then voxel @ [(idx, \<lparr>cell = [], cell_vol_frac = []\<rparr>)] else voxel)
         in map (\<lambda>(k, v). if k = idx
                   then (k, v\<lparr>cell := cell v @ [c], cell_vol_frac := cell_vol_frac v @ [f]\<rparr>)
                   else (k, v)) voxel1))"

definition group_voxels :: "(nat \<times> nat \<times> real) list \<Rightarrow> (nat \<times> voxel_info) list" where
  "group_voxels dg = foldl voxel_step [] dg"

text \<open>
  The loop \<^verbatim>\<open>for j, val in enumerate(zones[z]['mat'])\<close>: the fraction is added at every
  position \<open>j\<close> whose material is \<open>m\<close>.
\<close>

fun add_frac :: "string list \<Rightarrow> nat \<Rightarrow> string \<Rightarrow> real \<Rightarrow> real list \<Rightarrow> real list" where
  "add_frac [] j m f fr = fr"
| "add_frac (val # vs) j m f fr =
     add_frac vs (Suc j) m f (if m = val then fr[j := fr ! j + f] else fr)"

text \<open>
  The loop over the cells of one voxel, with their fractions (the two lists of a voxel
  have the same length, so enumerating one and indexing the other is \<open>zip\<close>).
  \<^verbatim>\<open>mat_assigns[cell]\<close> raises \<^verbatim>\<open>KeyError\<close> for a cell without material.
\<close>

fun merge_cells :: "(nat \<rightharpoonup> string) \<Rightarrow> zone_info \<Rightarrow> (nat \<times> real) list \<Rightarrow> error + zone_info" where
  "merge_cells mat_assigns zi [] = Inr zi"
| "merge_cells mat_assigns zi ((c, f) # rest) =
     (case mat_assigns c of
        None \<Rightarrow> Inl KeyError
      | Some m \<Rightarrow>
          if m \<notin> set (mat zi) then
            merge_cells mat_assigns (zi\<lparr>mat := mat zi @ [m], vol_frac := vol_frac zi @ [f]\<rparr>) rest
          else
            merge_cells mat_assigns (zi\<lparr>vol_frac := add_frac (mat zi) 0 m f (vol_frac zi)\<rparr>) rest)"

definition voxel_zone_info :: "(nat \<rightharpoonup> string) \<Rightarrow> voxel_info \<Rightarrow> error + zone_info" where
  "voxel_zone_info mat_assigns v =
     merge_cells mat_assigns \<lparr>vol_frac = [], mat = []\<rparr> (zip (cell v) (cell_vol_frac v))"

fun make_zones :: "(nat \<rightharpoonup> string) \<Rightarrow> (nat \<times> voxel_info) list
    \<Rightarrow> error + (nat \<times> zone_info) list" where
  "make_zones mat_assigns [] = Inr []"
| "make_zones mat_assigns ((z, v) # rest) =
     (case voxel_zone_info mat_assigns v of
        Inl e \<Rightarrow> Inl e
      | Inr zi \<Rightarrow>
          (case make_zones mat_assigns rest of
             Inl e \<Rightarrow> Inl e
           | Inr zs \<Rightarrow> Inr ((z, zi) # zs)))"

text \<open>
  The items of a dictionary keyed by voxel numbers, in iteration order. The voxel numbers
  are \<open>0, \<dots>, N - 1\<close>, which CPython 2 stores at their own slots and iterates in
  ascending order. The theorems on \<open>dedup\<close> hold for every order.
\<close>

definition dict_items :: "(nat \<times> 'v) list \<Rightarrow> (nat \<times> 'v) list" where
  "dict_items d = sort_key fst d"

definition aggregate :: "(nat \<times> nat \<times> real) list \<Rightarrow> (nat \<rightharpoonup> string)
    \<Rightarrow> error + (nat \<times> zone_info) list" where
  "aggregate dg mat_assigns = make_zones mat_assigns (dict_items (group_voxels dg))"

subsection \<open>The array of zone numbers: the end of \<^verbatim>\<open>_get_zones\<close>\<close>

text \<open>
  \<^verbatim>\<open>bounds\<close> maps the name of an active axis to its divisions. The number of intervals
  is a Python integer, \<open>-1\<close> for an empty list of divisions.
\<close>

definition intervals :: "(string \<rightharpoonup> real list) \<Rightarrow> string \<Rightarrow> int" where
  "intervals bounds k = (case bounds k of Some b \<Rightarrow> int (length b) - 1 | None \<Rightarrow> 1)"

text \<open>
  The two nested loops read \<^verbatim>\<open>voxel_zone[n]\<close> for \<open>n = 0, 1, \<dots>\<close>; a missing key raises
  \<^verbatim>\<open>KeyError\<close>.
\<close>

fun fill_row :: "(nat \<rightharpoonup> nat) \<Rightarrow> nat \<Rightarrow> nat \<Rightarrow> error + nat list" where
  "fill_row vz n 0 = Inr []"
| "fill_row vz n (Suc c) =
     (case vz n of
        None \<Rightarrow> Inl KeyError
      | Some zn \<Rightarrow> (case fill_row vz (Suc n) c of Inl e \<Rightarrow> Inl e | Inr r \<Rightarrow> Inr (zn # r)))"

fun fill_rows :: "(nat \<rightharpoonup> nat) \<Rightarrow> nat \<Rightarrow> nat \<Rightarrow> nat \<Rightarrow> error + nat list list" where
  "fill_rows vz n cols 0 = Inr []"
| "fill_rows vz n cols (Suc r) =
     (case fill_row vz n cols of
        Inl e \<Rightarrow> Inl e
      | Inr row \<Rightarrow>
          (case fill_rows vz (n + cols) cols r of Inl e \<Rightarrow> Inl e | Inr rows \<Rightarrow> Inr (row # rows)))"

text \<open>
  \<^verbatim>\<open>np.zeros(shape=(im, jm*km))\<close> raises \<^verbatim>\<open>ValueError\<close> for a negative dimension.
\<close>

definition build_ZONES :: "(nat \<rightharpoonup> nat) \<Rightarrow> (string \<rightharpoonup> real list) \<Rightarrow> error + nat list list" where
  "build_ZONES vz bounds =
     (let im = intervals bounds ''x''; jm = intervals bounds ''y''; km = intervals bounds ''z''
      in if im < 0 \<or> jm * km < 0 then Inl ValueError
         else fill_rows vz 0 (nat (jm * km)) (nat im))"

definition get_zones :: "(real \<Rightarrow> real \<Rightarrow> bool) \<Rightarrow> (nat \<times> nat \<times> real) list \<Rightarrow> (nat \<rightharpoonup> string)
    \<Rightarrow> (string \<rightharpoonup> real list)
    \<Rightarrow> error + (nat list list \<times> (nat \<times> zone_info) list)" where
  "get_zones cl dg mat_assigns bounds =
     (case aggregate dg mat_assigns of
        Inl e \<Rightarrow> Inl e
      | Inr zones \<Rightarrow>
          (case dedup cl (dict_items zones) of
             Inl e \<Rightarrow> Inl e
           | Inr st \<Rightarrow>
               (case build_ZONES (voxel_zone st) bounds of
                  Inl e \<Rightarrow> Inl e
                | Inr ZONES \<Rightarrow> Inr (ZONES, zones_mats st))))"

subsection \<open>The coordinate system: \<^verbatim>\<open>_get_coord_sys\<close>\<close>

record mesh =
  structured_get_divisions :: "string \<Rightarrow> real list"

text \<open>
  \<^verbatim>\<open>IGEOM\<close> is assigned in the three branches of the \<^verbatim>\<open>if\<close> only; with no active axis
  the \<^verbatim>\<open>return\<close> reads an unbound local variable.
\<close>

definition get_coord_sys :: "mesh \<Rightarrow> error + (string \<times> (string \<rightharpoonup> real list))" where
  "get_coord_sys m =
     (let nx = length (structured_get_divisions m ''x'');
          ny = length (structured_get_divisions m ''y'');
          nz = length (structured_get_divisions m ''z'');
          coord_sys = (if nx > 2 then ''x'' else []) @ (if ny > 2 then ''y'' else [])
                      @ (if nz > 2 then ''z'' else []);
          bounds = foldl (\<lambda>b i. b([i] \<mapsto> structured_get_divisions m [i])) Map.empty coord_sys
      in if length coord_sys = 1 then Inr (''SLAB'', bounds)
         else if length coord_sys = 2 then Inr (''X-Y'', bounds)
         else if length coord_sys = 3 then Inr (''X-Y-Z'', bounds)
         else Inl UnboundLocalError)"

subsection \<open>The material library: \<^verbatim>\<open>_get_material_lib\<close>\<close>

text \<open>
  The function creates one dictionary \<^verbatim>\<open>comp_list\<close> before its loop and stores that
  object under every material name, so the model has a store of dictionaries: \<open>mat_lib\<close>
  maps a name to an address, and the store maps the address to the dictionary there.
  The argument is \<^verbatim>\<open>mats_collapsed\<close> with \<^verbatim>\<open>to_atom_dens()\<close> applied: the items of each
  material in iteration order.
\<close>

record matlib_state =
  store :: "nat \<rightharpoonup> (nat \<rightharpoonup> real)"
  mat_lib :: "string \<rightharpoonup> nat"

definition comp_list_addr :: nat where
  "comp_list_addr = 0"

definition set_dens :: "matlib_state \<Rightarrow> nat \<times> real \<Rightarrow> matlib_state" where
  "set_dens s nd =
     (case nd of (nucid, dens) \<Rightarrow>
        (case store s comp_list_addr of
           None \<Rightarrow> s
         | Some comp_list \<Rightarrow>
             s\<lparr>store := (store s)(comp_list_addr \<mapsto> comp_list(nucid \<mapsto> dens * (1 / 10 ^ 24)))\<rparr>))"

definition matlib_step :: "matlib_state \<Rightarrow> string \<times> (nat \<times> real) list \<Rightarrow> matlib_state" where
  "matlib_step s mc =
     (case mc of (mat_name, atom_dens_dict) \<Rightarrow>
        (let s1 = foldl set_dens s atom_dens_dict
         in s1\<lparr>mat_lib := (mat_lib s1)(mat_name \<mapsto> comp_list_addr)\<rparr>))"

definition get_material_lib :: "(string \<times> (nat \<times> real) list) list \<Rightarrow> matlib_state" where
  "get_material_lib mats_collapsed =
     foldl matlib_step \<lparr>store = [comp_list_addr \<mapsto> Map.empty], mat_lib = Map.empty\<rparr>
       mats_collapsed"

text \<open>What the caller of \<^verbatim>\<open>_get_material_lib\<close> reads at \<^verbatim>\<open>mat_lib[name]\<close>.\<close>

definition mat_comp :: "matlib_state \<Rightarrow> string \<Rightarrow> (nat \<rightharpoonup> real) option" where
  "mat_comp s name = (case mat_lib s name of None \<Rightarrow> None | Some a \<Rightarrow> store s a)"

subsection \<open>The order of the steps in \<^verbatim>\<open>write_partisn_input\<close>\<close>

text \<open>
  The steps of \<^verbatim>\<open>write_partisn_input\<close> up to the zones, on the results of the calls into
  \<^verbatim>\<open>dagmc\<close> and the material library. Without the keyword \<^verbatim>\<open>names_dict\<close> the variable
  \<^verbatim>\<open>nuc_names\<close> is never bound. The blocks of the input deck and the writer, which is
  empty in the source, are left out.
\<close>

definition write_partisn_input :: "(real \<Rightarrow> real \<Rightarrow> bool) \<Rightarrow> mesh \<Rightarrow> (nat \<times> string) list option
    \<Rightarrow> (string \<times> (nat \<times> real) list) list \<Rightarrow> (nat \<times> nat \<times> real) list \<Rightarrow> (nat \<rightharpoonup> string)
    \<Rightarrow> error + (string \<times> matlib_state \<times> nat list list \<times> (nat \<times> zone_info) list)" where
  "write_partisn_input cl m names_dict mats_collapsed dg mat_assigns =
     (case get_coord_sys m of
        Inl e \<Rightarrow> Inl e
      | Inr (IGEOM, bounds) \<Rightarrow>
          (case names_dict of
             None \<Rightarrow> Inl UnboundLocalError
           | Some nuc_names \<Rightarrow>
               (let ml = get_material_lib mats_collapsed in
                case get_zones cl dg mat_assigns bounds of
                  Inl e \<Rightarrow> Inl e
                | Inr (ZONES, zones) \<Rightarrow> Inr (IGEOM, ml, ZONES, zones))))"

subsection \<open>Notions the properties are stated with\<close>

text \<open>
  An entry is well formed when it has one volume fraction for each material, as every
  entry that \<open>merge_cells\<close> builds has; a dictionary has every key once.
\<close>

definition wf_info :: "zone_info \<Rightarrow> bool" where
  "wf_info c \<longleftrightarrow> length (mat c) = length (vol_frac c)"

definition wf_zones :: "(nat \<times> zone_info) list \<Rightarrow> bool" where
  "wf_zones zones \<longleftrightarrow> distinct (map fst zones) \<and> list_all (\<lambda>iv. wf_info (snd iv)) zones"

text \<open>The test of the source for zone 0, and the test of the inner loop for a match.\<close>

definition is_void :: "zone_info \<Rightarrow> bool" where
  "is_void c \<longleftrightarrow> mat c \<in> set void_mats"

definition matches :: "(real \<Rightarrow> real \<Rightarrow> bool) \<Rightarrow> zone_info \<Rightarrow> zone_info \<Rightarrow> bool" where
  "matches cl vals info \<longleftrightarrow>
     mat vals = mat info \<and> list_all2 cl (vol_frac vals) (vol_frac info)"

text \<open>The number of the first registered zone that an entry matches.\<close>

fun first_match :: "(real \<Rightarrow> real \<Rightarrow> bool) \<Rightarrow> zone_info \<Rightarrow> (nat \<times> zone_info) list
    \<Rightarrow> nat option" where
  "first_match cl vals [] = None"
| "first_match cl vals ((k, info) # rest) =
     (if matches cl vals info then Some k else first_match cl vals rest)"

definition zone_num :: "(real \<Rightarrow> real \<Rightarrow> bool) \<Rightarrow> (nat \<times> zone_info) list \<Rightarrow> zone_info
    \<Rightarrow> nat option" where
  "zone_num cl reg c = (if is_void c then Some 0 else first_match cl c reg)"

text \<open>
  What one turn of the loop does to a voxel with entry \<open>vals\<close>: the number it assigns,
  and whether it registers a new zone.
\<close>

definition assigned :: "(real \<Rightarrow> real \<Rightarrow> bool) \<Rightarrow> dedup_state \<Rightarrow> zone_info \<Rightarrow> nat" where
  "assigned cl st vals =
     (if is_void vals then 0
      else case first_match cl vals (zones_mats st) of Some k \<Rightarrow> k | None \<Rightarrow> z_num st + 1)"

definition registers :: "(real \<Rightarrow> real \<Rightarrow> bool) \<Rightarrow> dedup_state \<Rightarrow> zone_info \<Rightarrow> bool" where
  "registers cl st vals \<longleftrightarrow> \<not> is_void vals \<and> first_match cl vals (zones_mats st) = None"

text \<open>
  The invariant of the loop: the registered zones are numbered \<open>1, \<dots>, z\<close> in order,
  \<^verbatim>\<open>first\<close> holds exactly while nothing is registered, no registered entry is a void
  one, and no registered entry matches a zone registered before it.
\<close>

definition reg_inv :: "(real \<Rightarrow> real \<Rightarrow> bool) \<Rightarrow> dedup_state \<Rightarrow> bool" where
  "reg_inv cl st \<longleftrightarrow>
     map fst (zones_mats st) = [1..<Suc (z_num st)]
     \<and> (first_flag st \<longleftrightarrow> zones_mats st = [])
     \<and> (\<forall>kr \<in> set (zones_mats st). wf_info (snd kr) \<and> \<not> is_void (snd kr))
     \<and> (\<forall>j < length (zones_mats st).
           first_match cl (snd (zones_mats st ! j)) (take j (zones_mats st)) = None)"

text \<open>
  The entries that are new when the loop meets them, in the order it meets them: an entry
  is new when it is not void and does not match any of the new entries before it. This
  is the greedy choice of the loop itself, not a count of the different compositions: it
  depends on the order of the voxels, and entries that differ can be one new entry.
\<close>

fun greedy_new :: "(real \<Rightarrow> real \<Rightarrow> bool) \<Rightarrow> zone_info list \<Rightarrow> zone_info list \<Rightarrow> zone_info list" where
  "greedy_new cl seen [] = []"
| "greedy_new cl seen (c # cs) =
     (if \<not> is_void c \<and> list_all (\<lambda>r. \<not> matches cl c r) seen
      then c # greedy_new cl (seen @ [c]) cs
      else greedy_new cl seen cs)"

text \<open>
  What the theorems assume of the test \<open>cl\<close>. The test of \<^verbatim>\<open>np.allclose\<close> holds of a
  float and itself. When it holds of \<open>a\<close> and \<open>b\<close>, their distance is within the
  tolerance \<open>atol + rtol * |b|\<close> up to the rounding of the double operations and constants
  of the test, which the factor \<open>slack\<close> bounds.
\<close>

definition close_refl :: "(real \<Rightarrow> real \<Rightarrow> bool) \<Rightarrow> bool" where
  "close_refl cl \<longleftrightarrow> (\<forall>a. cl a a)"

definition slack :: real where
  "slack = 1 + 1 / 2 ^ 50"

definition close_bound :: "(real \<Rightarrow> real \<Rightarrow> bool) \<Rightarrow> bool" where
  "close_bound cl \<longleftrightarrow> (\<forall>a b. cl a b \<longrightarrow> \<bar>a - b\<bar> \<le> slack * (atol + rtol * \<bar>b\<bar>))"

text \<open>
  The distance beyond which two fractions cannot both pass the test against the same
  registered fraction, in terms of the first.
\<close>

definition pair_tol :: "real \<Rightarrow> real" where
  "pair_tol a = 2 * (slack * rtol + slack * rtol * \<bar>a\<bar>) / (1 - slack * rtol)"

text \<open>
  The test in exact arithmetic. The double test agrees with it on two floats unless their
  distance is within rounding of the tolerance; it stands for the double test at the
  concrete inputs below, none of which is that near to the tolerance.
\<close>

definition exact_close :: "real \<Rightarrow> real \<Rightarrow> bool" where
  "exact_close a b \<longleftrightarrow> \<bar>a - b\<bar> \<le> atol + rtol * \<bar>b\<bar>"

text \<open>
  The specification's equality of two compositions, for comparison: the same materials
  in the same order, and volume fractions within the absolute tolerance \<open>1e-8\<close>.
\<close>

definition spec_same :: "zone_info \<Rightarrow> zone_info \<Rightarrow> bool" where
  "spec_same c d \<longleftrightarrow>
     mat c = mat d
     \<and> list_all2 (\<lambda>a b. \<bar>a - b\<bar> \<le> 1 / 10 ^ 8) (vol_frac c) (vol_frac d)"

text \<open>
  The specification's void rule, for comparison with \<open>is_void\<close>: one material whose name
  is one of the names of \<open>void_mats\<close> up to the case of its ASCII letters (compared by
  the codes of the lower-case letters).
\<close>

definition lower :: "string \<Rightarrow> nat list" where
  "lower s = map (\<lambda>c. if 65 \<le> (of_char c :: nat) \<and> (of_char c :: nat) \<le> 90
                          then (of_char c :: nat) + 32 else of_char c) s"

definition spec_void :: "zone_info \<Rightarrow> bool" where
  "spec_void c \<longleftrightarrow>
     (case mat c of [m] \<Rightarrow> [lower m] \<in> set (map (map lower) void_mats) | _ \<Rightarrow> False)"

text \<open>
  The records of one voxel in the order of \<^verbatim>\<open>dagmc.discretize_geom\<close>, as pairs of cell
  and volume fraction; the materials of their cells; the sum of the fractions of the
  records whose cell has the material \<open>m\<close>; a list without the repetitions of its
  elements, each kept where it is first seen; and the condition under which
  \<^verbatim>\<open>mat_assigns[cell]\<close> never raises.
\<close>

definition voxel_recs :: "(nat \<times> nat \<times> real) list \<Rightarrow> nat \<Rightarrow> (nat \<times> real) list" where
  "voxel_recs dg v = map snd (filter (\<lambda>r. fst r = v) dg)"

fun rec_mats :: "(nat \<rightharpoonup> string) \<Rightarrow> (nat \<times> real) list \<Rightarrow> string list" where
  "rec_mats ma [] = []"
| "rec_mats ma ((c, f) # rs) = (case ma c of None \<Rightarrow> rec_mats ma rs | Some m \<Rightarrow> m # rec_mats ma rs)"

definition frac_sum :: "(nat \<rightharpoonup> string) \<Rightarrow> (nat \<times> real) list \<Rightarrow> string \<Rightarrow> real" where
  "frac_sum ma rs m = sum_list (map snd (filter (\<lambda>cf. ma (fst cf) = Some m) rs))"

definition cells_assigned :: "(nat \<times> nat \<times> real) list \<Rightarrow> (nat \<rightharpoonup> string) \<Rightarrow> bool" where
  "cells_assigned dg mat_assigns \<longleftrightarrow> list_all (\<lambda>r. mat_assigns (fst (snd r)) \<noteq> None) dg"

definition first_seen :: "'a list \<Rightarrow> 'a list" where
  "first_seen xs = rev (remdups (rev xs))"

text \<open>
  An axis is active when it has more than two divisions; the size of the array along an
  axis, as the code has it. \<open>zones_array\<close> is the array for the bounds of a mesh, as
  \<^verbatim>\<open>write_partisn_input\<close> passes them from \<^verbatim>\<open>_get_coord_sys\<close> to \<^verbatim>\<open>_get_zones\<close>.
\<close>

definition active :: "mesh \<Rightarrow> string \<Rightarrow> bool" where
  "active m k \<longleftrightarrow> length (structured_get_divisions m k) > 2"

definition axis_size :: "mesh \<Rightarrow> string \<Rightarrow> nat" where
  "axis_size m k = (if active m k then length (structured_get_divisions m k) - 1 else 1)"

text \<open>
  The specification's shape, for comparison: the intervals of the first active axis, and
  the product of the intervals of the active axes after it.
\<close>

definition spec_shape :: "mesh \<Rightarrow> nat \<times> nat" where
  "spec_shape m =
     (case filter (active m) [''x'', ''y'', ''z''] of
        [] \<Rightarrow> (1, 1)
      | k # rest \<Rightarrow> (length (structured_get_divisions m k) - 1,
                     prod_list (map (\<lambda>k. length (structured_get_divisions m k) - 1) rest)))"

definition zones_array :: "mesh \<Rightarrow> (nat \<rightharpoonup> nat) \<Rightarrow> error + nat list list" where
  "zones_array m vz =
     (case get_coord_sys m of Inl e \<Rightarrow> Inl e | Inr (IGEOM, bounds) \<Rightarrow> build_ZONES vz bounds)"

text \<open>
  The densities of all materials in the unit of the library, in the order they are
  written to \<^verbatim>\<open>comp_list\<close>, and the dictionary they leave there (a later density of a
  nuclide replaces an earlier one); the dictionary that the densities of one material
  alone would give; the invariant of the loop of \<^verbatim>\<open>_get_material_lib\<close>.
\<close>

definition scale_dens :: "nat \<times> real \<Rightarrow> nat \<times> real" where
  "scale_dens nd = (fst nd, snd nd * (1 / 10 ^ 24))"

definition scaled_items :: "(string \<times> (nat \<times> real) list) list \<Rightarrow> (nat \<times> real) list" where
  "scaled_items mats = map scale_dens (concat (map snd mats))"

definition all_dens :: "(string \<times> (nat \<times> real) list) list \<Rightarrow> (nat \<rightharpoonup> real)" where
  "all_dens mats = map_of (rev (scaled_items mats))"

definition own_dens :: "(nat \<times> real) list \<Rightarrow> (nat \<rightharpoonup> real)" where
  "own_dens atom_dens_dict = map_of (rev (map scale_dens atom_dens_dict))"

definition matlib_inv :: "matlib_state \<Rightarrow> (string \<times> (nat \<times> real) list) list \<Rightarrow> bool" where
  "matlib_inv s done \<longleftrightarrow>
     store s comp_list_addr = Some (all_dens done)
     \<and> (\<forall>name. mat_lib s name = (if name \<in> fst ` set done then Some comp_list_addr else None))"

section \<open>Properties of the zone numbers\<close>

subsection \<open>One turn of the loop\<close>

lemma allclose_same_length:
  "length a = length b \<Longrightarrow> allclose cl a b = Inr (list_all2 cl a b)"
  by (simp add: allclose_def)

lemma scan_zones_first_match:
  "wf_info vals \<Longrightarrow> \<forall>kr \<in> set reg. wf_info (snd kr) \<Longrightarrow>
   scan_zones cl vals reg m y =
     Inr (case first_match cl vals reg of
            Some k \<Rightarrow> (True, Some k)
          | None \<Rightarrow> (if reg = [] then m else False, y))"
proof (induction reg arbitrary: m)
  case Nil
  then show ?case by simp
next
  case (Cons kr reg)
  obtain k info where kr: "kr = (k, info)" by (cases kr)
  have wfi: "wf_info info" using Cons.prems(2) kr by simp
  have rest: "\<forall>kr \<in> set reg. wf_info (snd kr)" using Cons.prems(2) by simp
  show ?case
  proof (cases "mat vals = mat info")
    case True
    then have len: "length (vol_frac vals) = length (vol_frac info)"
      using Cons.prems(1) wfi by (simp add: wf_info_def)
    show ?thesis
      using True Cons.IH[OF Cons.prems(1) rest, of False]
      by (simp add: kr allclose_same_length[OF len] matches_def split: option.splits)
  next
    case False
    then show ?thesis
      using Cons.IH[OF Cons.prems(1) rest, of False]
      by (simp add: kr matches_def split: option.splits)
  qed
qed

lemma first_match_Some_mem:
  "first_match cl vals reg = Some k \<Longrightarrow> \<exists>info. (k, info) \<in> set reg \<and> matches cl vals info"
  by (induction reg) (auto split: if_splits)

lemma first_match_append:
  "first_match cl vals (xs @ ys) =
     (case first_match cl vals xs of Some k \<Rightarrow> Some k | None \<Rightarrow> first_match cl vals ys)"
  by (induction xs) auto

lemma first_match_None_iff:
  "first_match cl vals reg = None \<longleftrightarrow> (\<forall>kr \<in> set reg. \<not> matches cl vals (snd kr))"
  by (induction reg) (auto split: if_splits)

lemma zone_step_char:
  assumes inv: "reg_inv cl st" and wf: "wf_info vals"
  shows "\<exists>st'. zone_step cl st (i, vals) = Inr st'
      \<and> voxel_zone st' = (voxel_zone st)(i \<mapsto> assigned cl st vals)
      \<and> zones_mats st' = zones_mats st @ (if registers cl st vals then [(z_num st + 1, vals)] else [])
      \<and> z_num st' = z_num st + (if registers cl st vals then 1 else 0)
      \<and> reg_inv cl st'"
proof -
  have regwf: "\<forall>kr \<in> set (zones_mats st). wf_info (snd kr)"
    using inv by (simp add: reg_inv_def)
  note sc = scan_zones_first_match[OF wf regwf, where cl = cl and m = "match_flag st"
      and y = "y_num st"]
  show ?thesis
  proof (cases "first_match cl vals (zones_mats st)")
    case None
    show ?thesis
    proof (cases "is_void vals")
      case True
      then show ?thesis using None inv sc
        by (auto simp: zone_step_def assigned_def registers_def reg_inv_def is_void_def Let_def)
    next
      case False
      have fresh: "\<forall>j < length (zones_mats st @ [(z_num st + 1, vals)]).
            first_match cl (snd ((zones_mats st @ [(z_num st + 1, vals)]) ! j))
              (take j (zones_mats st @ [(z_num st + 1, vals)])) = None"
        using None inv by (auto simp: reg_inv_def nth_append less_Suc_eq)
      show ?thesis using False None inv sc wf fresh
        by (auto simp: zone_step_def assigned_def registers_def reg_inv_def is_void_def Let_def)
    qed
  next
    case (Some k)
    then have ne: "zones_mats st \<noteq> []" by auto
    then have nf: "\<not> first_flag st" using inv by (simp add: reg_inv_def)
    show ?thesis using Some inv sc nf ne
      by (auto simp: zone_step_def assigned_def registers_def reg_inv_def is_void_def Let_def)
  qed
qed

lemma reg_keys_pos:
  "reg_inv cl st \<Longrightarrow> (k, r) \<in> set (zones_mats st) \<Longrightarrow> 1 \<le> k \<and> k \<le> z_num st"
proof -
  assume a: "reg_inv cl st" "(k, r) \<in> set (zones_mats st)"
  then have "k \<in> set (map fst (zones_mats st))" by force
  moreover have "map fst (zones_mats st) = [1..<Suc (z_num st)]"
    using a(1) by (simp only: reg_inv_def)
  ultimately have "k \<in> set [1..<Suc (z_num st)]" by simp
  then show ?thesis by auto
qed

lemma reg_inv_length: "reg_inv cl st \<Longrightarrow> length (zones_mats st) = z_num st"
proof -
  assume "reg_inv cl st"
  then have "map fst (zones_mats st) = [1..<Suc (z_num st)]" by (simp only: reg_inv_def)
  then have "length (map fst (zones_mats st)) = length [1..<Suc (z_num st)]" by simp
  then show ?thesis by simp
qed

lemma reg_inv_nth_key:
  "reg_inv cl st \<Longrightarrow> j < z_num st \<Longrightarrow> fst (zones_mats st ! j) = Suc j"
proof -
  assume a: "reg_inv cl st" "j < z_num st"
  then have m: "map fst (zones_mats st) = [1..<Suc (z_num st)]" by (simp only: reg_inv_def)
  have "fst (zones_mats st ! j) = map fst (zones_mats st) ! j"
    using a reg_inv_length[OF a(1)] by simp
  also have "\<dots> = [1..<Suc (z_num st)] ! j" using m by simp
  also have "\<dots> = Suc j" using a(2) by (simp del: upt_Suc)
  finally show ?thesis .
qed

lemma reg_keys_distinct: "reg_inv cl st \<Longrightarrow> distinct (map fst (zones_mats st))"
  by (simp only: reg_inv_def distinct_upt)

text \<open>
  The number that one turn assigns: 0 exactly to a void entry, and otherwise the number
  of a zone that is registered after the turn, whose entry is the entry of the voxel or
  one that it matches.
\<close>

lemma assigned_char:
  assumes inv: "reg_inv cl st"
  shows "(assigned cl st c = 0 \<longleftrightarrow> is_void c)
     \<and> (\<not> is_void c \<longrightarrow>
          (\<exists>r. (assigned cl st c, r)
                  \<in> set (zones_mats st @ (if registers cl st c then [(z_num st + 1, c)] else []))
               \<and> (r = c \<or> matches cl c r)))"
proof (cases "is_void c")
  case True
  then show ?thesis by (simp add: assigned_def)
next
  case False
  show ?thesis
  proof (cases "first_match cl c (zones_mats st)")
    case None
    then show ?thesis using False by (auto simp: assigned_def registers_def)
  next
    case (Some k)
    then obtain r where r: "(k, r) \<in> set (zones_mats st)" "matches cl c r"
      using first_match_Some_mem by blast
    then have "1 \<le> k" using reg_keys_pos[OF inv] by blast
    then show ?thesis using False Some r by (auto simp: assigned_def registers_def)
  qed
qed

lemma exact_close_refl: "close_refl exact_close"
  by (simp add: close_refl_def exact_close_def atol_def rtol_def)

lemma exact_close_bound: "close_bound exact_close"
proof -
  have "\<bar>a - b\<bar> \<le> slack * (atol + rtol * \<bar>b\<bar>)" if "exact_close a b" for a b
  proof -
    have "0 \<le> atol + rtol * \<bar>b\<bar>" by (simp add: atol_def rtol_def)
    then have "atol + rtol * \<bar>b\<bar> \<le> slack * (atol + rtol * \<bar>b\<bar>)"
      by (simp add: slack_def mult_le_cancel_right1)
    then show ?thesis using that by (simp add: exact_close_def)
  qed
  then show ?thesis by (simp add: close_bound_def)
qed

lemma matches_refl: "close_refl cl \<Longrightarrow> matches cl c c"
  by (simp add: matches_def close_refl_def list_all2_refl)

lemma zone_num_append:
  "zone_num cl reg c = Some k \<Longrightarrow> zone_num cl (reg @ ext) c = Some k"
  by (auto simp: zone_num_def first_match_append split: if_splits)

lemma zone_num_step:
  "close_refl cl \<Longrightarrow>
   zone_num cl (zones_mats st @ (if registers cl st c then [(z_num st + 1, c)] else [])) c
     = Some (assigned cl st c)"
  by (auto simp: zone_num_def assigned_def registers_def first_match_append matches_refl
           split: option.splits)

subsection \<open>The whole loop\<close>

text \<open>
  From a state that satisfies the invariant, over well-formed entries with distinct
  voxel numbers, the loop ends without an exception, whatever the test is. It only
  appends to the registered zones; every voxel it visits has a number, which is 0 exactly
  for a void entry and otherwise the number of a registered zone whose entry is that of
  the voxel or one it matches; every zone it registers is the entry of a voxel that has
  its number.
\<close>

lemma zone_loop_basic:
  assumes "reg_inv cl st" and "\<forall>iv \<in> set zones. wf_info (snd iv)" and "distinct (map fst zones)"
  shows "\<exists>st' ext. zone_loop cl st zones = Inr st' \<and> reg_inv cl st'
     \<and> zones_mats st' = zones_mats st @ ext
     \<and> (\<forall>j. j \<notin> fst ` set zones \<longrightarrow> voxel_zone st' j = voxel_zone st j)
     \<and> (\<forall>ic \<in> set zones. \<exists>n. voxel_zone st' (fst ic) = Some n
            \<and> (n = 0 \<longleftrightarrow> is_void (snd ic))
            \<and> (\<not> is_void (snd ic) \<longrightarrow>
                 (\<exists>r. (n, r) \<in> set (zones_mats st') \<and> (r = snd ic \<or> matches cl (snd ic) r))))
     \<and> (\<forall>kr \<in> set ext. \<exists>i. (i, snd kr) \<in> set zones \<and> voxel_zone st' i = Some (fst kr))"
  using assms
proof (induction zones arbitrary: st)
  case Nil
  then show ?case by simp
next
  case (Cons iv zones)
  obtain i c where iv: "iv = (i, c)" by (cases iv)
  have wfc: "wf_info c" using Cons.prems(2) iv by simp
  let ?new = "(if registers cl st c then [(z_num st + 1, c)] else [])"
  obtain st1 where s1: "zone_step cl st (i, c) = Inr st1"
    and vz1: "voxel_zone st1 = (voxel_zone st)(i \<mapsto> assigned cl st c)"
    and reg1: "zones_mats st1 = zones_mats st @ ?new"
    and inv1: "reg_inv cl st1"
    using zone_step_char[OF Cons.prems(1) wfc, of i] by blast
  have wfr: "\<forall>iv \<in> set zones. wf_info (snd iv)" using Cons.prems(2) by simp
  have dr: "distinct (map fst zones)" and inot: "i \<notin> fst ` set zones"
    using Cons.prems(3) iv by auto
  obtain st' ext where l: "zone_loop cl st1 zones = Inr st'" and inv': "reg_inv cl st'"
    and reg': "zones_mats st' = zones_mats st1 @ ext"
    and keep: "\<forall>j. j \<notin> fst ` set zones \<longrightarrow> voxel_zone st' j = voxel_zone st1 j"
    and asg: "\<forall>ic \<in> set zones. \<exists>n. voxel_zone st' (fst ic) = Some n
            \<and> (n = 0 \<longleftrightarrow> is_void (snd ic))
            \<and> (\<not> is_void (snd ic) \<longrightarrow>
                 (\<exists>r. (n, r) \<in> set (zones_mats st') \<and> (r = snd ic \<or> matches cl (snd ic) r)))"
    and onto: "\<forall>kr \<in> set ext. \<exists>i. (i, snd kr) \<in> set zones \<and> voxel_zone st' i = Some (fst kr)"
    using Cons.IH[OF inv1 wfr dr] by blast
  have vi: "voxel_zone st' i = Some (assigned cl st c)"
    using keep inot vz1 by simp
  note ac = assigned_char[OF Cons.prems(1), of c]
  have head: "\<exists>n. voxel_zone st' i = Some n \<and> (n = 0 \<longleftrightarrow> is_void c)
      \<and> (\<not> is_void c \<longrightarrow>
            (\<exists>r. (n, r) \<in> set (zones_mats st') \<and> (r = c \<or> matches cl c r)))"
  proof -
    have "\<not> is_void c \<longrightarrow>
        (\<exists>r. (assigned cl st c, r) \<in> set (zones_mats st') \<and> (r = c \<or> matches cl c r))"
      using ac reg1 reg' by auto
    then have "voxel_zone st' i = Some (assigned cl st c)
        \<and> (assigned cl st c = 0 \<longleftrightarrow> is_void c)
        \<and> (\<not> is_void c \<longrightarrow>
              (\<exists>r. (assigned cl st c, r) \<in> set (zones_mats st') \<and> (r = c \<or> matches cl c r)))"
      using vi ac by simp
    then show ?thesis by (rule exI)
  qed
  have 1: "zone_loop cl st (iv # zones) = Inr st'" using s1 l iv by simp
  have 2: "zones_mats st' = zones_mats st @ (?new @ ext)" using reg' reg1 by simp
  have 3: "\<forall>j. j \<notin> fst ` set (iv # zones) \<longrightarrow> voxel_zone st' j = voxel_zone st j"
    using keep vz1 iv by auto
  have 4: "\<forall>ic \<in> set (iv # zones). \<exists>n. voxel_zone st' (fst ic) = Some n
            \<and> (n = 0 \<longleftrightarrow> is_void (snd ic))
            \<and> (\<not> is_void (snd ic) \<longrightarrow>
                 (\<exists>r. (n, r) \<in> set (zones_mats st') \<and> (r = snd ic \<or> matches cl (snd ic) r)))"
    using asg head iv by simp
  have 5: "\<forall>kr \<in> set (?new @ ext).
             \<exists>j. (j, snd kr) \<in> set (iv # zones) \<and> voxel_zone st' j = Some (fst kr)"
  proof
    fix kr assume "kr \<in> set (?new @ ext)"
    then consider "registers cl st c" "kr = (z_num st + 1, c)" | "kr \<in> set ext"
      by (auto split: if_splits)
    then show "\<exists>j. (j, snd kr) \<in> set (iv # zones) \<and> voxel_zone st' j = Some (fst kr)"
    proof cases
      case 1
      then have "assigned cl st c = z_num st + 1"
        by (simp add: assigned_def registers_def)
      then show ?thesis using vi 1 iv by auto
    next
      case 2
      then show ?thesis using onto by auto
    qed
  qed
  show ?case using 1 inv' 2 3 4 5 by blast
qed

lemma dedup_basic:
  assumes "wf_zones zones"
  shows "\<exists>st. dedup cl zones = Inr st \<and> reg_inv cl st
     \<and> (\<forall>j. j \<notin> fst ` set zones \<longrightarrow> voxel_zone st j = None)
     \<and> (\<forall>ic \<in> set zones. \<exists>n. voxel_zone st (fst ic) = Some n
            \<and> (n = 0 \<longleftrightarrow> is_void (snd ic))
            \<and> (\<not> is_void (snd ic) \<longrightarrow>
                 (\<exists>r. (n, r) \<in> set (zones_mats st) \<and> (r = snd ic \<or> matches cl (snd ic) r))))
     \<and> (\<forall>kr \<in> set (zones_mats st).
            \<exists>i. (i, snd kr) \<in> set zones \<and> voxel_zone st i = Some (fst kr))"
proof -
  have i0: "reg_inv cl init_state" by (simp add: reg_inv_def init_state_def)
  have wf: "\<forall>iv \<in> set zones. wf_info (snd iv)" and d: "distinct (map fst zones)"
    using assms by (auto simp: wf_zones_def list_all_iff)
  from zone_loop_basic[OF i0 wf d] show ?thesis
    by (auto simp: dedup_def init_state_def)
qed

lemma dedup_dom:
  assumes "wf_zones zones" and "dedup cl zones = Inr st"
  shows "dom (voxel_zone st) = fst ` set zones"
proof -
  obtain st0 where d: "dedup cl zones = Inr st0"
    and out: "\<forall>j. j \<notin> fst ` set zones \<longrightarrow> voxel_zone st0 j = None"
    and asg: "\<forall>ic \<in> set zones. \<exists>n. voxel_zone st0 (fst ic) = Some n"
    using dedup_basic[OF assms(1), of cl] by blast
  have e: "st0 = st" using d assms(2) by simp
  show ?thesis
  proof (rule set_eqI)
    fix j show "j \<in> dom (voxel_zone st) \<longleftrightarrow> j \<in> fst ` set zones"
    proof
      assume "j \<in> dom (voxel_zone st)"
      then show "j \<in> fst ` set zones" using out e by (cases "j \<in> fst ` set zones") auto
    next
      assume "j \<in> fst ` set zones"
      then obtain ic where "ic \<in> set zones" "j = fst ic" by auto
      then show "j \<in> dom (voxel_zone st)" using asg e by (auto simp: dom_def)
    qed
  qed
qed

text \<open>
  With a test that holds of every float and itself, the number of a voxel is that of the
  first zone of the final registry that its entry matches.
\<close>

lemma zone_loop_char:
  assumes rf: "close_refl cl"
  shows "reg_inv cl st \<Longrightarrow> \<forall>iv \<in> set zones. wf_info (snd iv) \<Longrightarrow> distinct (map fst zones) \<Longrightarrow>
     \<exists>st' ext. zone_loop cl st zones = Inr st' \<and> reg_inv cl st'
     \<and> zones_mats st' = zones_mats st @ ext
     \<and> (\<forall>ic \<in> set zones. voxel_zone st' (fst ic) = zone_num cl (zones_mats st') (snd ic)
            \<and> zone_num cl (zones_mats st') (snd ic) \<noteq> None)"
proof (induction zones arbitrary: st)
  case Nil
  then show ?case by simp
next
  case (Cons iv zones)
  obtain i c where iv: "iv = (i, c)" by (cases iv)
  have wfc: "wf_info c" using Cons.prems(2) iv by simp
  obtain st1 where s1: "zone_step cl st (i, c) = Inr st1"
    and vz1: "voxel_zone st1 = (voxel_zone st)(i \<mapsto> assigned cl st c)"
    and reg1: "zones_mats st1 = zones_mats st @ (if registers cl st c then [(z_num st + 1, c)] else [])"
    and inv1: "reg_inv cl st1"
    using zone_step_char[OF Cons.prems(1) wfc, of i] by blast
  have wfr: "\<forall>iv \<in> set zones. wf_info (snd iv)" using Cons.prems(2) by simp
  have dr: "distinct (map fst zones)" and inot: "i \<notin> fst ` set zones"
    using Cons.prems(3) iv by auto
  obtain st' ext where l: "zone_loop cl st1 zones = Inr st'" and inv': "reg_inv cl st'"
    and reg': "zones_mats st' = zones_mats st1 @ ext"
    and asg: "\<forall>ic \<in> set zones. voxel_zone st' (fst ic) = zone_num cl (zones_mats st') (snd ic)
            \<and> zone_num cl (zones_mats st') (snd ic) \<noteq> None"
    using Cons.IH[OF inv1 wfr dr] by blast
  obtain st2 where l2: "zone_loop cl st1 zones = Inr st2"
    and keep: "\<forall>j. j \<notin> fst ` set zones \<longrightarrow> voxel_zone st2 j = voxel_zone st1 j"
    using zone_loop_basic[OF inv1 wfr dr] by blast
  have "st2 = st'" using l l2 by simp
  then have vi: "voxel_zone st' i = Some (assigned cl st c)"
    using keep inot vz1 by simp
  have zn: "zone_num cl (zones_mats st') c = Some (assigned cl st c)"
    using zone_num_step[OF rf, of st c] zone_num_append reg' reg1 by metis
  have 1: "zone_loop cl st (iv # zones) = Inr st'" using s1 l iv by simp
  have 2: "zones_mats st' = zones_mats st
      @ ((if registers cl st c then [(z_num st + 1, c)] else []) @ ext)"
    using reg' reg1 by simp
  have 4: "\<forall>ic \<in> set (iv # zones). voxel_zone st' (fst ic) = zone_num cl (zones_mats st') (snd ic)
            \<and> zone_num cl (zones_mats st') (snd ic) \<noteq> None"
    using asg vi zn iv by auto
  show ?case using 1 inv' 2 4 by blast
qed

lemma dedup_char:
  assumes "close_refl cl" and "wf_zones zones"
  shows "\<exists>st. dedup cl zones = Inr st \<and> reg_inv cl st
     \<and> (\<forall>ic \<in> set zones. voxel_zone st (fst ic) = zone_num cl (zones_mats st) (snd ic)
            \<and> zone_num cl (zones_mats st) (snd ic) \<noteq> None)"
proof -
  have i0: "reg_inv cl init_state" by (simp add: reg_inv_def init_state_def)
  have wf: "\<forall>iv \<in> set zones. wf_info (snd iv)" and d: "distinct (map fst zones)"
    using assms(2) by (auto simp: wf_zones_def list_all_iff)
  from zone_loop_char[OF assms(1) i0 wf d] show ?thesis
    by (auto simp: dedup_def init_state_def)
qed

subsection \<open>Zone 0\<close>

text \<open>
  C1, as the code has it. Over a well-formed dictionary, and whatever the test of
  \<^verbatim>\<open>np.allclose\<close> returns, the loop ends without an exception and gives every voxel
  exactly one zone number; the number is 0 exactly when the material list of the voxel is
  one of the four lists of \<open>void_mats\<close>, spelled as they are there; and no registered zone
  has such a material list.
\<close>

theorem zone_zero_iff_listed_void:
  assumes "wf_zones zones"
  shows "\<exists>st. dedup cl zones = Inr st \<and> dom (voxel_zone st) = fst ` set zones
     \<and> (\<forall>ic \<in> set zones. voxel_zone st (fst ic) = Some 0 \<longleftrightarrow> is_void (snd ic))
     \<and> (\<forall>kr \<in> set (zones_mats st). \<not> is_void (snd kr))"
proof -
  obtain st where d: "dedup cl zones = Inr st" and inv: "reg_inv cl st"
    and asg: "\<forall>ic \<in> set zones. \<exists>n. voxel_zone st (fst ic) = Some n
            \<and> (n = 0 \<longleftrightarrow> is_void (snd ic))"
    using dedup_basic[OF assms, of cl] by blast
  have dom: "dom (voxel_zone st) = fst ` set zones"
    by (rule dedup_dom[OF assms d])
  have zero: "\<forall>ic \<in> set zones. voxel_zone st (fst ic) = Some 0 \<longleftrightarrow> is_void (snd ic)"
  proof
    fix ic assume "ic \<in> set zones"
    then obtain n where "voxel_zone st (fst ic) = Some n" "n = 0 \<longleftrightarrow> is_void (snd ic)"
      using asg by blast
    then show "voxel_zone st (fst ic) = Some 0 \<longleftrightarrow> is_void (snd ic)" by auto
  qed
  have nov: "\<forall>kr \<in> set (zones_mats st). \<not> is_void (snd kr)"
    using inv by (simp add: reg_inv_def)
  show ?thesis using d dom zero nov by blast
qed

text \<open>The theorem at two voxels, one of material A and one of vacuum.\<close>

theorem zone_zero_iff_listed_void_witness:
  "wf_zones [(0, \<lparr>vol_frac = [1], mat = [''mat:A'']\<rparr>),
             (1, \<lparr>vol_frac = [1], mat = [''mat:Vacuum'']\<rparr>)]
   \<and> (\<exists>st. dedup exact_close [(0, \<lparr>vol_frac = [1], mat = [''mat:A'']\<rparr>),
                               (1, \<lparr>vol_frac = [1], mat = [''mat:Vacuum'']\<rparr>)] = Inr st
        \<and> dom (voxel_zone st) = fst ` set [(0, \<lparr>vol_frac = [1], mat = [''mat:A'']\<rparr>),
                                           (1, \<lparr>vol_frac = [1], mat = [''mat:Vacuum'']\<rparr>)]
        \<and> (\<forall>ic \<in> set [(0, \<lparr>vol_frac = [1], mat = [''mat:A'']\<rparr>),
                        (1, \<lparr>vol_frac = [1], mat = [''mat:Vacuum'']\<rparr>)].
              voxel_zone st (fst ic) = Some 0 \<longleftrightarrow> is_void (snd ic))
        \<and> (\<forall>kr \<in> set (zones_mats st). \<not> is_void (snd kr)))"
proof -
  have wf: "wf_zones [(0, \<lparr>vol_frac = [1], mat = [''mat:A'']\<rparr>),
                      (1, \<lparr>vol_frac = [1], mat = [''mat:Vacuum'']\<rparr>)]"
    by (simp add: wf_zones_def wf_info_def)
  show ?thesis
    by (rule conjI[OF wf zone_zero_iff_listed_void[OF wf, of exact_close]])
qed

text \<open>
  The match is not case-insensitive: a voxel of the one material \<^verbatim>\<open>mat:VACUUM\<close>, a void
  material by the specification's rule, gets the zone number 1.
\<close>

theorem zone_zero_case_sensitive:
  "spec_void \<lparr>vol_frac = [1], mat = [''mat:VACUUM'']\<rparr>
   \<and> zone_of_voxel exact_close [(0, \<lparr>vol_frac = [1], mat = [''mat:VACUUM'']\<rparr>)] 0 = Some 1"
  by (simp add: spec_void_def lower_def void_mats_def zone_of_voxel_def dedup_def
      init_state_def zone_step_def)

subsection \<open>Zone numbers in the order of first encounter\<close>

lemma zone_loop_append:
  "zone_loop cl st (xs @ ys) =
     (case zone_loop cl st xs of Inl e \<Rightarrow> Inl e | Inr s \<Rightarrow> zone_loop cl s ys)"
  by (induction xs arbitrary: st) (auto split: sum.splits)

lemma wf_zones_parts:
  "wf_zones (pre @ (i, c) # post) \<Longrightarrow>
     wf_zones pre \<and> wf_info c \<and> (\<forall>iv \<in> set post. wf_info (snd iv)) \<and> distinct (map fst post)
     \<and> i \<notin> fst ` set post"
  by (auto simp: wf_zones_def list_all_iff)

text \<open>
  The registered zones are the entries that were new when the loop met them, in the order
  it met them.
\<close>

lemma registers_iff:
  "registers cl st c \<longleftrightarrow>
     \<not> is_void c \<and> list_all (\<lambda>r. \<not> matches cl c r) (map snd (zones_mats st))"
  by (simp add: registers_def first_match_None_iff list_all_iff)

lemma zone_loop_registry:
  assumes "reg_inv cl st" and "\<forall>iv \<in> set zones. wf_info (snd iv)"
    and "zone_loop cl st zones = Inr st'"
  shows "map snd (zones_mats st')
     = map snd (zones_mats st) @ greedy_new cl (map snd (zones_mats st)) (map snd zones)"
  using assms
proof (induction zones arbitrary: st)
  case Nil
  then show ?case by simp
next
  case (Cons iv zones)
  obtain i c where iv: "iv = (i, c)" by (cases iv)
  have wfc: "wf_info c" using Cons.prems(2) iv by simp
  obtain st1 where s1: "zone_step cl st (i, c) = Inr st1"
    and reg1: "zones_mats st1 = zones_mats st @ (if registers cl st c then [(z_num st + 1, c)] else [])"
    and inv1: "reg_inv cl st1"
    using zone_step_char[OF Cons.prems(1) wfc, of i] by blast
  have wfr: "\<forall>iv \<in> set zones. wf_info (snd iv)" using Cons.prems(2) by simp
  have l: "zone_loop cl st1 zones = Inr st'" using Cons.prems(3) s1 iv by simp
  note ih = Cons.IH[OF inv1 wfr l]
  show ?case
  proof (cases "registers cl st c")
    case True
    then have cond: "\<not> is_void c \<and> list_all (\<lambda>r. \<not> matches cl c r) (map snd (zones_mats st))"
      by (simp add: registers_iff)
    have r1: "zones_mats st1 = zones_mats st @ [(z_num st + 1, c)]" using reg1 True by simp
    show ?thesis using ih cond iv by (simp add: r1)
  next
    case False
    then have cond: "\<not> (\<not> is_void c \<and> list_all (\<lambda>r. \<not> matches cl c r) (map snd (zones_mats st)))"
      by (simp add: registers_iff)
    have r1: "zones_mats st1 = zones_mats st" using reg1 False by simp
    have "greedy_new cl (map snd (zones_mats st)) (map snd (iv # zones))
        = greedy_new cl (map snd (zones_mats st)) (map snd zones)"
      using cond iv by auto
    then show ?thesis using ih by (simp add: r1)
  qed
qed

lemma dedup_registry:
  assumes "wf_zones zones" and "dedup cl zones = Inr st"
  shows "map snd (zones_mats st) = greedy_new cl [] (map snd zones)"
proof -
  have i0: "reg_inv cl init_state" by (simp add: reg_inv_def init_state_def)
  have wf: "\<forall>iv \<in> set zones. wf_info (snd iv)"
    using assms(1) by (auto simp: wf_zones_def list_all_iff)
  from zone_loop_registry[OF i0 wf] assms(2) show ?thesis
    by (simp add: dedup_def init_state_def)
qed

text \<open>
  A voxel that is not void and matches no zone registered by the voxels before it
  registers a new zone, numbered one more than the zones registered so far, and keeps
  that number to the end of the loop.
\<close>

lemma first_encounter:
  assumes wf: "wf_zones (pre @ (i, c) # post)" and nv: "\<not> is_void c"
    and nm: "first_match cl c (registry cl pre) = None"
  shows "zone_of_voxel cl (pre @ (i, c) # post) i = Some (length (registry cl pre) + 1)
     \<and> registry cl (pre @ [(i, c)]) = registry cl pre @ [(length (registry cl pre) + 1, c)]"
proof -
  from wf_zones_parts[OF wf] have wfp: "wf_zones pre" and wfc: "wf_info c"
    and wfpost: "\<forall>iv \<in> set post. wf_info (snd iv)" and dpost: "distinct (map fst post)"
    and inot: "i \<notin> fst ` set post" by auto
  obtain stp where dp: "dedup cl pre = Inr stp" and invp: "reg_inv cl stp"
    using dedup_basic[OF wfp, of cl] by blast
  have regp: "registry cl pre = zones_mats stp" using dp by (simp add: registry_def)
  have lenp: "length (registry cl pre) = z_num stp" using regp reg_inv_length[OF invp] by simp
  have rg: "registers cl stp c" using nv nm regp by (simp add: registers_def)
  obtain st1 where s1: "zone_step cl stp (i, c) = Inr st1"
    and vz1: "voxel_zone st1 = (voxel_zone stp)(i \<mapsto> assigned cl stp c)"
    and reg1: "zones_mats st1
        = zones_mats stp @ (if registers cl stp c then [(z_num stp + 1, c)] else [])"
    and inv1: "reg_inv cl st1"
    using zone_step_char[OF invp wfc, of i] by blast
  have as: "assigned cl stp c = z_num stp + 1"
    using rg by (simp add: assigned_def registers_def)
  obtain st' where l: "zone_loop cl st1 post = Inr st'"
    and keep: "\<forall>j. j \<notin> fst ` set post \<longrightarrow> voxel_zone st' j = voxel_zone st1 j"
    using zone_loop_basic[OF inv1 wfpost dpost] by blast
  have "dedup cl (pre @ (i, c) # post) = Inr st'"
    using dp s1 l by (simp add: dedup_def zone_loop_append)
  then have a: "zone_of_voxel cl (pre @ (i, c) # post) i = Some (length (registry cl pre) + 1)"
    using keep inot vz1 as lenp by (simp add: zone_of_voxel_def)
  have "dedup cl (pre @ [(i, c)]) = Inr st1"
    using dp s1 by (simp add: dedup_def zone_loop_append)
  then have b: "registry cl (pre @ [(i, c)])
      = registry cl pre @ [(length (registry cl pre) + 1, c)]"
    using reg1 rg regp lenp by (simp add: registry_def)
  show ?thesis using a b by simp
qed

text \<open>
  C7, as the code has it. Over a well-formed dictionary, and whatever the test of
  \<^verbatim>\<open>np.allclose\<close> returns, the zone numbers other than 0 are exactly \<open>1, \<dots>, Z\<close>, where
  \<open>Z\<close> is the final value of the counter \<^verbatim>\<open>z\<close>: the number of registered zones, which
  are the entries that were new (not void, matching no zone registered before) when the
  loop met them, in that order (\<open>greedy_new\<close>). The registered zones carry the numbers
  \<open>1, \<dots>, Z\<close> in order, and each is the entry of a voxel that has its number. A voxel
  whose entry is new when it is met gets the number of zones registered by the voxels
  before it, plus one.
\<close>

theorem zone_numbers_contiguous:
  assumes "wf_zones zones"
  shows "\<exists>st. dedup cl zones = Inr st
     \<and> {n. n \<noteq> 0 \<and> (\<exists>i. voxel_zone st i = Some n)} = {1..z_num st}
     \<and> z_num st = length (greedy_new cl [] (map snd zones))
     \<and> map snd (zones_mats st) = greedy_new cl [] (map snd zones)
     \<and> map fst (zones_mats st) = [1..<Suc (z_num st)]
     \<and> (\<forall>j < z_num st. first_match cl (snd (zones_mats st ! j)) (take j (zones_mats st)) = None
            \<and> (\<exists>i. (i, snd (zones_mats st ! j)) \<in> set zones \<and> voxel_zone st i = Some (Suc j)))
     \<and> (\<forall>pre i c post. zones = pre @ (i, c) # post \<and> \<not> is_void c
            \<and> first_match cl c (registry cl pre) = None \<longrightarrow>
            voxel_zone st i = Some (length (registry cl pre) + 1)
            \<and> registry cl (pre @ [(i, c)])
                = registry cl pre @ [(length (registry cl pre) + 1, c)])"
proof -
  obtain st where d: "dedup cl zones = Inr st" and inv: "reg_inv cl st"
    and out: "\<forall>j. j \<notin> fst ` set zones \<longrightarrow> voxel_zone st j = None"
    and asg: "\<forall>ic \<in> set zones. \<exists>n. voxel_zone st (fst ic) = Some n
            \<and> (n = 0 \<longleftrightarrow> is_void (snd ic))
            \<and> (\<not> is_void (snd ic) \<longrightarrow>
                 (\<exists>r. (n, r) \<in> set (zones_mats st) \<and> (r = snd ic \<or> matches cl (snd ic) r)))"
    and onto: "\<forall>kr \<in> set (zones_mats st).
            \<exists>i. (i, snd kr) \<in> set zones \<and> voxel_zone st i = Some (fst kr)"
    using dedup_basic[OF assms, of cl] by blast
  have len: "length (zones_mats st) = z_num st" by (rule reg_inv_length[OF inv])
  have keys: "map fst (zones_mats st) = [1..<Suc (z_num st)]"
    using inv by (simp only: reg_inv_def)
  have sub: "n \<in> {1..z_num st}" if n: "n \<noteq> 0" "voxel_zone st i = Some n" for n i
  proof -
    have "i \<in> fst ` set zones" using out n(2) by (cases "i \<in> fst ` set zones") auto
    then obtain c where ic: "(i, c) \<in> set zones" by auto
    then obtain n' where n': "voxel_zone st i = Some n'" "n' = 0 \<longleftrightarrow> is_void c"
      "\<not> is_void c \<longrightarrow> (\<exists>r. (n', r) \<in> set (zones_mats st) \<and> (r = c \<or> matches cl c r))"
      using asg by force
    then have "n' = n" using n(2) by simp
    then obtain r where "(n, r) \<in> set (zones_mats st)" using n' n(1) by auto
    then show ?thesis using reg_keys_pos[OF inv] by auto
  qed
  have nth: "first_match cl (snd (zones_mats st ! j)) (take j (zones_mats st)) = None
            \<and> (\<exists>i. (i, snd (zones_mats st ! j)) \<in> set zones \<and> voxel_zone st i = Some (Suc j))"
    if j: "j < z_num st" for j
  proof -
    have 1: "first_match cl (snd (zones_mats st ! j)) (take j (zones_mats st)) = None"
      using inv j len by (simp add: reg_inv_def)
    have "zones_mats st ! j \<in> set (zones_mats st)" using j len by simp
    then obtain i where "(i, snd (zones_mats st ! j)) \<in> set zones"
      "voxel_zone st i = Some (fst (zones_mats st ! j))" using onto by blast
    then show ?thesis using 1 reg_inv_nth_key[OF inv j] by auto
  qed
  have sup: "n \<noteq> 0 \<and> (\<exists>i. voxel_zone st i = Some n)" if n: "n \<in> {1..z_num st}" for n
  proof -
    from n obtain j where j: "j < z_num st" "n = Suc j" by (cases n) auto
    then show ?thesis using nth[OF j(1)] by auto
  qed
  have set_eq: "{n. n \<noteq> 0 \<and> (\<exists>i. voxel_zone st i = Some n)} = {1..z_num st}"
    using sub sup by blast
  have fe: "\<forall>pre i c post. zones = pre @ (i, c) # post \<and> \<not> is_void c
            \<and> first_match cl c (registry cl pre) = None \<longrightarrow>
            voxel_zone st i = Some (length (registry cl pre) + 1)
            \<and> registry cl (pre @ [(i, c)])
                = registry cl pre @ [(length (registry cl pre) + 1, c)]"
  proof (intro allI impI)
    fix pre i c post
    assume h: "zones = pre @ (i, c) # post \<and> \<not> is_void c
        \<and> first_match cl c (registry cl pre) = None"
    then have wf: "wf_zones (pre @ (i, c) # post)" using assms by simp
    have nv: "\<not> is_void c" and nm: "first_match cl c (registry cl pre) = None"
      using h by simp_all
    from first_encounter[OF wf nv nm] h d
    show "voxel_zone st i = Some (length (registry cl pre) + 1)
            \<and> registry cl (pre @ [(i, c)])
                = registry cl pre @ [(length (registry cl pre) + 1, c)]"
      by (simp add: zone_of_voxel_def)
  qed
  have reg: "map snd (zones_mats st) = greedy_new cl [] (map snd zones)"
    by (rule dedup_registry[OF assms d])
  have cnt: "z_num st = length (greedy_new cl [] (map snd zones))"
    using reg len by (metis length_map)
  show ?thesis using d set_eq cnt reg keys nth fe by blast
qed

text \<open>
  The theorem at four voxels: material A, vacuum, material A again and material B. The
  new entries are the first and the last.
\<close>

theorem zone_numbers_contiguous_witness:
  "wf_zones [(0 :: nat, \<lparr>vol_frac = [1], mat = [''mat:A'']\<rparr>),
             (1, \<lparr>vol_frac = [1], mat = [''mat:Vacuum'']\<rparr>),
             (2, \<lparr>vol_frac = [1], mat = [''mat:A'']\<rparr>),
             (3, \<lparr>vol_frac = [1], mat = [''mat:B'']\<rparr>)]
   \<and> greedy_new exact_close []
         (map snd [(0 :: nat, \<lparr>vol_frac = [1], mat = [''mat:A'']\<rparr>),
                   (1, \<lparr>vol_frac = [1], mat = [''mat:Vacuum'']\<rparr>),
                   (2, \<lparr>vol_frac = [1], mat = [''mat:A'']\<rparr>),
                   (3, \<lparr>vol_frac = [1], mat = [''mat:B'']\<rparr>)])
       = [\<lparr>vol_frac = [1], mat = [''mat:A'']\<rparr>, \<lparr>vol_frac = [1], mat = [''mat:B'']\<rparr>]
   \<and> (\<exists>st. dedup exact_close
                [(0 :: nat, \<lparr>vol_frac = [1], mat = [''mat:A'']\<rparr>),
                 (1, \<lparr>vol_frac = [1], mat = [''mat:Vacuum'']\<rparr>),
                 (2, \<lparr>vol_frac = [1], mat = [''mat:A'']\<rparr>),
                 (3, \<lparr>vol_frac = [1], mat = [''mat:B'']\<rparr>)] = Inr st
          \<and> {n. n \<noteq> 0 \<and> (\<exists>i. voxel_zone st i = Some n)} = {1..z_num st}
          \<and> z_num st = 2
          \<and> map fst (zones_mats st) = [1..<Suc (z_num st)])"
proof -
  let ?z = "[(0 :: nat, \<lparr>vol_frac = [1], mat = [''mat:A'']\<rparr>),
             (1, \<lparr>vol_frac = [1], mat = [''mat:Vacuum'']\<rparr>),
             (2, \<lparr>vol_frac = [1], mat = [''mat:A'']\<rparr>),
             (3, \<lparr>vol_frac = [1], mat = [''mat:B'']\<rparr>)]"
  have wf: "wf_zones ?z" by (simp add: wf_zones_def wf_info_def)
  have g: "greedy_new exact_close [] (map snd ?z)
      = [\<lparr>vol_frac = [1], mat = [''mat:A'']\<rparr>, \<lparr>vol_frac = [1], mat = [''mat:B'']\<rparr>]"
    by (simp add: is_void_def void_mats_def matches_def exact_close_def atol_def rtol_def)
  obtain st where st: "dedup exact_close ?z = Inr st"
    "{n. n \<noteq> 0 \<and> (\<exists>i. voxel_zone st i = Some n)} = {1..z_num st}"
    "z_num st = length (greedy_new exact_close [] (map snd ?z))"
    "map fst (zones_mats st) = [1..<Suc (z_num st)]"
    using zone_numbers_contiguous[OF wf, of exact_close] by blast
  have "z_num st = 2" using st(3) by (simp only: g) simp
  then have "\<exists>st. dedup exact_close ?z = Inr st
      \<and> {n. n \<noteq> 0 \<and> (\<exists>i. voxel_zone st i = Some n)} = {1..z_num st}
      \<and> z_num st = 2 \<and> map fst (zones_mats st) = [1..<Suc (z_num st)]"
    using st(1,2,4) by blast
  then show ?thesis using wf g by (intro conjI)
qed

text \<open>
  \<open>Z\<close> is not the number of distinct compositions. The fractions \<open>1\<close> and
  \<open>0.999999985\<close> of material A differ by \<open>1.5e-8\<close>: the two compositions are different,
  also by the specification's tolerance \<open>1e-8\<close>. The second passes the test against the
  first (tolerance \<open>1e-8 + 1e-8 * 1\<close>), so one zone is registered and both voxels get
  zone 1.
\<close>

theorem zone_count_below_distinct:
  "\<not> is_void \<lparr>vol_frac = [1], mat = [''mat:A'']\<rparr>
   \<and> \<not> is_void \<lparr>vol_frac = [999999985 / 1000000000], mat = [''mat:A'']\<rparr>
   \<and> \<not> spec_same \<lparr>vol_frac = [1], mat = [''mat:A'']\<rparr>
                    \<lparr>vol_frac = [999999985 / 1000000000], mat = [''mat:A'']\<rparr>
   \<and> registry exact_close
         [(0, \<lparr>vol_frac = [1], mat = [''mat:A'']\<rparr>),
          (1, \<lparr>vol_frac = [999999985 / 1000000000], mat = [''mat:A'']\<rparr>)]
       = [(1, \<lparr>vol_frac = [1], mat = [''mat:A'']\<rparr>)]
   \<and> zone_of_voxel exact_close
         [(0, \<lparr>vol_frac = [1], mat = [''mat:A'']\<rparr>),
          (1, \<lparr>vol_frac = [999999985 / 1000000000], mat = [''mat:A'']\<rparr>)] 0 = Some 1
   \<and> zone_of_voxel exact_close
         [(0, \<lparr>vol_frac = [1], mat = [''mat:A'']\<rparr>),
          (1, \<lparr>vol_frac = [999999985 / 1000000000], mat = [''mat:A'']\<rparr>)] 1 = Some 1"
  by (simp add: is_void_def void_mats_def spec_same_def registry_def zone_of_voxel_def
      dedup_def init_state_def zone_step_def allclose_def exact_close_def atol_def rtol_def)

text \<open>
  The number of registered zones depends on the order of the voxels: the fractions
  \<open>0.5\<close>, \<open>0.500000014\<close> and \<open>0.500000028\<close> register two zones in this order, and one
  zone when the middle one comes first.
\<close>

lemma zone_count_depends_on_order:
  "length (registry exact_close
      [(0, \<lparr>vol_frac = [500000000 / 1000000000], mat = [''mat:A'']\<rparr>),
       (1, \<lparr>vol_frac = [500000014 / 1000000000], mat = [''mat:A'']\<rparr>),
       (2, \<lparr>vol_frac = [500000028 / 1000000000], mat = [''mat:A'']\<rparr>)]) = 2
   \<and> length (registry exact_close
      [(0, \<lparr>vol_frac = [500000014 / 1000000000], mat = [''mat:A'']\<rparr>),
       (1, \<lparr>vol_frac = [500000000 / 1000000000], mat = [''mat:A'']\<rparr>),
       (2, \<lparr>vol_frac = [500000028 / 1000000000], mat = [''mat:A'']\<rparr>)]) = 1"
  by (simp add: void_mats_def registry_def dedup_def init_state_def zone_step_def allclose_def
      exact_close_def atol_def rtol_def)

subsection \<open>Which voxels share a zone\<close>

text \<open>
  Two values within \<open>T + T * |r|\<close> of the same value \<open>r\<close> are within twice that of each
  other, which is bounded in terms of the first of them.
\<close>

lemma pair_bound:
  assumes T: "0 < (T :: real)" "T < 1"
    and a: "\<bar>a - r\<bar> \<le> T + T * \<bar>r\<bar>" and b: "\<bar>b - r\<bar> \<le> T + T * \<bar>r\<bar>"
  shows "\<bar>a - b\<bar> \<le> 2 * (T + T * \<bar>a\<bar>) / (1 - T)"
proof -
  define x where "x = \<bar>a - b\<bar>"
  define p where "p = \<bar>a\<bar>"
  define q where "q = \<bar>r\<bar>"
  define w where "w = T * q"
  have a': "\<bar>a - r\<bar> \<le> T + w" and b': "\<bar>b - r\<bar> \<le> T + w"
    using a b by (simp_all add: q_def w_def)
  have A: "x \<le> 2 * T + 2 * w" using a' b' unfolding x_def by linarith
  have "q \<le> p + \<bar>a - r\<bar>" unfolding p_def q_def by linarith
  then have B: "q - w \<le> p + T" using a' by linarith
  have "T * (q - w) \<le> T * (p + T)" using B T(1) by (simp add: mult_left_mono)
  then have C: "w - T * w \<le> T * p + T * T" by (simp add: w_def algebra_simps)
  have "x * (1 - T) \<le> (2 * T + 2 * w) * (1 - T)"
    using A T(2) by (simp add: mult_right_mono)
  also have "\<dots> = 2 * T - 2 * (T * T) + 2 * (w - T * w)" by (simp add: algebra_simps)
  also have "\<dots> \<le> 2 * T - 2 * (T * T) + 2 * (T * p + T * T)" using C by simp
  also have "\<dots> = 2 * (T + T * p)" by (simp add: algebra_simps)
  finally have "x * (1 - T) \<le> 2 * (T + T * p)" .
  then have "x \<le> 2 * (T + T * p) / (1 - T)" using T(2) by (simp add: pos_le_divide_eq)
  then show ?thesis by (simp add: x_def p_def)
qed

lemma close_pair_tol:
  assumes "a = r \<or> \<bar>a - r\<bar> \<le> slack * (atol + rtol * \<bar>r\<bar>)"
    and "b = r \<or> \<bar>b - r\<bar> \<le> slack * (atol + rtol * \<bar>r\<bar>)"
  shows "\<bar>a - b\<bar> \<le> pair_tol a"
proof -
  define T where "T = slack * rtol"
  have T: "0 < T" "T < 1" by (simp_all add: T_def slack_def rtol_def)
  have e: "slack * (atol + rtol * \<bar>r\<bar>) = T + T * \<bar>r\<bar>"
    by (simp add: T_def atol_def rtol_def algebra_simps)
  have nn: "0 \<le> T + T * \<bar>r\<bar>" using T(1) by (simp add: add_nonneg_nonneg)
  have a: "\<bar>a - r\<bar> \<le> T + T * \<bar>r\<bar>" using assms(1) e nn by auto
  have b: "\<bar>b - r\<bar> \<le> T + T * \<bar>r\<bar>" using assms(2) e nn by auto
  from pair_bound[OF T a b] show ?thesis by (simp add: pair_tol_def T_def)
qed

text \<open>
  C2, as the code has it. The test of \<^verbatim>\<open>np.allclose\<close> is assumed to hold only of
  fractions within its tolerance \<open>atol + rtol * |r|\<close> of the registered fraction \<open>r\<close>, up
  to the rounding of the double operations (\<open>close_bound\<close>). Then two voxels that are not
  void get different zone numbers when their material lists differ, or when at some
  position their volume fractions \<open>a\<close> and \<open>b\<close> differ by more than \<open>pair_tol a\<close>, about
  \<open>2e-8 * (1 + |a|)\<close>: the voxels of one zone are both within the tolerance of the
  fractions registered for it.
\<close>

theorem different_compositions_different_zones:
  assumes "close_bound cl"
    and "wf_zones zones" and "(u, cu) \<in> set zones" and "(v, cv) \<in> set zones"
    and "\<not> is_void cu" and "\<not> is_void cv"
    and "mat cu \<noteq> mat cv
         \<or> (\<exists>j < length (vol_frac cu).
               \<bar>vol_frac cu ! j - vol_frac cv ! j\<bar> > pair_tol (vol_frac cu ! j))"
  shows "zone_of_voxel cl zones u \<noteq> zone_of_voxel cl zones v"
proof
  assume eq: "zone_of_voxel cl zones u = zone_of_voxel cl zones v"
  obtain st where d: "dedup cl zones = Inr st" and inv: "reg_inv cl st"
    and asg: "\<forall>ic \<in> set zones. \<exists>n. voxel_zone st (fst ic) = Some n
            \<and> (n = 0 \<longleftrightarrow> is_void (snd ic))
            \<and> (\<not> is_void (snd ic) \<longrightarrow>
                 (\<exists>r. (n, r) \<in> set (zones_mats st) \<and> (r = snd ic \<or> matches cl (snd ic) r)))"
    using dedup_basic[OF assms(2), of cl] by blast
  obtain k r where k: "voxel_zone st u = Some k" "(k, r) \<in> set (zones_mats st)"
    "r = cu \<or> matches cl cu r"
    using asg assms(3,5) by force
  obtain k' r' where k': "voxel_zone st v = Some k'" "(k', r') \<in> set (zones_mats st)"
    "r' = cv \<or> matches cl cv r'"
    using asg assms(4,6) by force
  have "k' = k" using eq k(1) k'(1) d by (simp add: zone_of_voxel_def)
  then have "r' = r" using k(2) k'(2) reg_keys_distinct[OF inv] by (meson eq_key_imp_eq_value)
  then have mv: "r = cv \<or> matches cl cv r" using k'(3) by simp
  have mats: "mat cu = mat cv" using k(3) mv by (auto simp: matches_def)
  have wfu: "wf_info cu" and wfv: "wf_info cv"
    using assms(2,3,4) by (auto simp: wf_zones_def list_all_iff)
  have len: "length (vol_frac cu) = length (vol_frac r)" "length (vol_frac cv) = length (vol_frac r)"
    using k(3) mv wfu wfv mats by (auto simp: matches_def wf_info_def dest: list_all2_lengthD)
  from assms(7) mats obtain j where j: "j < length (vol_frac cu)"
    "\<bar>vol_frac cu ! j - vol_frac cv ! j\<bar> > pair_tol (vol_frac cu ! j)"
    by blast
  have near: "r = c \<or> matches cl c r \<Longrightarrow> length (vol_frac c) = length (vol_frac r) \<Longrightarrow>
      vol_frac c ! j = vol_frac r ! j
      \<or> \<bar>vol_frac c ! j - vol_frac r ! j\<bar> \<le> slack * (atol + rtol * \<bar>vol_frac r ! j\<bar>)" for c
  proof -
    assume c: "r = c \<or> matches cl c r" and l: "length (vol_frac c) = length (vol_frac r)"
    show ?thesis
    proof (cases "r = c")
      case True
      then show ?thesis by simp
    next
      case False
      then have "list_all2 cl (vol_frac c) (vol_frac r)" using c by (simp add: matches_def)
      then have "cl (vol_frac c ! j) (vol_frac r ! j)"
        using j(1) len(1) l by (simp add: list_all2_nthD)
      then show ?thesis using assms(1) by (simp add: close_bound_def)
    qed
  qed
  have "\<bar>vol_frac cu ! j - vol_frac cv ! j\<bar> \<le> pair_tol (vol_frac cu ! j)"
    by (rule close_pair_tol[OF near[OF k(3) len(1)] near[OF mv len(2)]])
  then show False using j(2) by simp
qed

text \<open>The theorem at two voxels of material A with the fractions 1 and 0.5.\<close>

theorem different_compositions_different_zones_witness:
  "close_bound exact_close
   \<and> wf_zones [(0, \<lparr>vol_frac = [1], mat = [''mat:A'']\<rparr>),
               (Suc 0, \<lparr>vol_frac = [1 / 2], mat = [''mat:A'']\<rparr>)]
   \<and> \<not> is_void \<lparr>vol_frac = [1], mat = [''mat:A'']\<rparr>
   \<and> \<not> is_void \<lparr>vol_frac = [1 / 2], mat = [''mat:A'']\<rparr>
   \<and> \<bar>(1 :: real) - 1 / 2\<bar> > pair_tol 1
   \<and> zone_of_voxel exact_close [(0, \<lparr>vol_frac = [1], mat = [''mat:A'']\<rparr>),
                                 (Suc 0, \<lparr>vol_frac = [1 / 2], mat = [''mat:A'']\<rparr>)] 0
       \<noteq> zone_of_voxel exact_close [(0, \<lparr>vol_frac = [1], mat = [''mat:A'']\<rparr>),
                                   (Suc 0, \<lparr>vol_frac = [1 / 2], mat = [''mat:A'']\<rparr>)] (Suc 0)"
proof -
  let ?a = "\<lparr>vol_frac = [1], mat = [''mat:A'']\<rparr>"
  let ?b = "\<lparr>vol_frac = [1 / 2], mat = [''mat:A'']\<rparr>"
  have wf: "wf_zones [(0, ?a), (Suc 0, ?b)]" by (simp add: wf_zones_def wf_info_def)
  have m0: "(0, ?a) \<in> set [(0, ?a), (Suc 0, ?b)]"
    and m1: "(Suc 0, ?b) \<in> set [(0, ?a), (Suc 0, ?b)]"
    by simp_all
  have v0: "\<not> is_void ?a" and v1: "\<not> is_void ?b" by (simp_all add: is_void_def void_mats_def)
  have far0: "\<bar>(1 :: real) - 1 / 2\<bar> > pair_tol 1"
    by (simp add: pair_tol_def slack_def rtol_def)
  then have far: "\<exists>j < length (vol_frac ?a).
      \<bar>vol_frac ?a ! j - vol_frac ?b ! j\<bar> > pair_tol (vol_frac ?a ! j)"
    by simp
  note t = different_compositions_different_zones[OF exact_close_bound wf m0 m1 v0 v1
      disjI2[OF far]]
  show ?thesis using exact_close_bound wf v0 v1 far0 t by (intro conjI)
qed

text \<open>
  Fractions that differ by more than \<open>1e-8\<close> can share a zone: the fractions \<open>0.5\<close> and
  \<open>0.500000012\<close> differ by \<open>1.2e-8\<close>, within the tolerance \<open>1e-8 + 1e-8 * 0.5\<close> of
  \<^verbatim>\<open>np.allclose\<close>, and both voxels get zone 1.
\<close>

theorem close_fractions_same_zone_beyond_tolerance:
  "\<not> is_void \<lparr>vol_frac = [1 / 2], mat = [''mat:A'']\<rparr>
   \<and> \<not> is_void \<lparr>vol_frac = [500000012 / 1000000000], mat = [''mat:A'']\<rparr>
   \<and> \<bar>1 / 2 - 500000012 / 1000000000\<bar> > (1 / 10 ^ 8 :: real)
   \<and> zone_of_voxel exact_close
         [(0, \<lparr>vol_frac = [1 / 2], mat = [''mat:A'']\<rparr>),
          (1, \<lparr>vol_frac = [500000012 / 1000000000], mat = [''mat:A'']\<rparr>)] 0 = Some 1
   \<and> zone_of_voxel exact_close
         [(0, \<lparr>vol_frac = [1 / 2], mat = [''mat:A'']\<rparr>),
          (1, \<lparr>vol_frac = [500000012 / 1000000000], mat = [''mat:A'']\<rparr>)] 1 = Some 1"
  by (simp add: is_void_def void_mats_def zone_of_voxel_def dedup_def init_state_def
      zone_step_def allclose_def exact_close_def atol_def rtol_def)

lemma first_match_cong:
  "\<forall>kr \<in> set reg. matches cl a (snd kr) = matches cl b (snd kr) \<Longrightarrow>
   first_match cl a reg = first_match cl b reg"
  by (induction reg) auto

lemma zone_num_value:
  assumes "close_refl cl" and "wf_zones zones" and "(u, cu) \<in> set zones"
  shows "zone_of_voxel cl zones u = zone_num cl (registry cl zones) cu
     \<and> (\<exists>k. zone_of_voxel cl zones u = Some k)"
proof -
  obtain st where d: "dedup cl zones = Inr st"
    and asg: "\<forall>ic \<in> set zones. voxel_zone st (fst ic) = zone_num cl (zones_mats st) (snd ic)
            \<and> zone_num cl (zones_mats st) (snd ic) \<noteq> None"
    using dedup_char[OF assms(1,2)] by blast
  have "voxel_zone st u = zone_num cl (zones_mats st) cu
      \<and> zone_num cl (zones_mats st) cu \<noteq> None"
    using asg assms(3) by force
  then show ?thesis using d by (auto simp: zone_of_voxel_def registry_def)
qed

text \<open>
  C3, as the code has it. The test of \<^verbatim>\<open>np.allclose\<close> is assumed to hold of a float and
  itself (\<open>close_refl\<close>); a match is a match by that test, as the code evaluates it. Then
  the number of a voxel is that of the first registered zone it matches, and two voxels
  with the same material list get the same zone number when their volume fractions are
  equal, and more generally when they match the same registered zones.
\<close>

theorem same_matches_same_zone:
  assumes "close_refl cl"
    and "wf_zones zones" and "(u, cu) \<in> set zones" and "(v, cv) \<in> set zones"
    and "mat cu = mat cv"
    and "vol_frac cu = vol_frac cv
         \<or> (\<forall>kr \<in> set (registry cl zones). matches cl cu (snd kr) = matches cl cv (snd kr))"
  shows "\<exists>k. zone_of_voxel cl zones u = Some k \<and> zone_of_voxel cl zones v = Some k"
proof -
  have m: "\<forall>kr \<in> set (registry cl zones). matches cl cu (snd kr) = matches cl cv (snd kr)"
    using assms(5,6) by (auto simp: matches_def)
  have "first_match cl cu (registry cl zones) = first_match cl cv (registry cl zones)"
    by (rule first_match_cong[OF m])
  moreover have "is_void cu = is_void cv" using assms(5) by (simp add: is_void_def)
  ultimately have "zone_num cl (registry cl zones) cu = zone_num cl (registry cl zones) cv"
    by (simp add: zone_num_def)
  then have "zone_of_voxel cl zones u = zone_of_voxel cl zones v"
    using zone_num_value[OF assms(1,2,3)] zone_num_value[OF assms(1,2,4)] by simp
  moreover obtain k where "zone_of_voxel cl zones u = Some k"
    using zone_num_value[OF assms(1,2,3)] by blast
  ultimately show ?thesis by metis
qed

text \<open>
  The theorem at three voxels of material A: the fraction \<open>0.5\<close>, then \<open>0.7\<close>, then
  \<open>0.5\<close> again. The first and the last get the same zone.
\<close>

theorem same_matches_same_zone_witness:
  "close_refl exact_close
   \<and> wf_zones [(0, \<lparr>vol_frac = [1 / 2], mat = [''mat:A'']\<rparr>),
               (1, \<lparr>vol_frac = [7 / 10], mat = [''mat:A'']\<rparr>),
               (2, \<lparr>vol_frac = [1 / 2], mat = [''mat:A'']\<rparr>)]
   \<and> (\<exists>k. zone_of_voxel exact_close
               [(0, \<lparr>vol_frac = [1 / 2], mat = [''mat:A'']\<rparr>),
                (1, \<lparr>vol_frac = [7 / 10], mat = [''mat:A'']\<rparr>),
                (2, \<lparr>vol_frac = [1 / 2], mat = [''mat:A'']\<rparr>)] 0 = Some k
          \<and> zone_of_voxel exact_close
               [(0, \<lparr>vol_frac = [1 / 2], mat = [''mat:A'']\<rparr>),
                (1, \<lparr>vol_frac = [7 / 10], mat = [''mat:A'']\<rparr>),
                (2, \<lparr>vol_frac = [1 / 2], mat = [''mat:A'']\<rparr>)] 2 = Some k)"
proof -
  let ?a = "\<lparr>vol_frac = [1 / 2], mat = [''mat:A'']\<rparr>"
  let ?b = "\<lparr>vol_frac = [7 / 10], mat = [''mat:A'']\<rparr>"
  have wf: "wf_zones [(0, ?a), (1, ?b), (2, ?a)]" by (simp add: wf_zones_def wf_info_def)
  have m0: "(0, ?a) \<in> set [(0, ?a), (1, ?b), (2, ?a)]"
    and m2: "(2, ?a) \<in> set [(0, ?a), (1, ?b), (2, ?a)]"
    by simp_all
  note t = same_matches_same_zone[OF exact_close_refl wf m0 m2 refl disjI1[OF refl]]
  show ?thesis using exact_close_refl wf t by (intro conjI)
qed

text \<open>
  Fractions within \<open>1e-8\<close> of each other can get different zones. The first voxel
  registers zone 1 with the fraction \<open>0.5\<close>, where the tolerance is \<open>1.5e-8\<close>;
  \<open>0.500000012\<close> is within it and \<open>0.50000002\<close> is not, so the third voxel registers
  zone 2, although the last two fractions differ by \<open>8e-9\<close>.
\<close>

theorem close_fractions_different_zones:
  "\<not> is_void \<lparr>vol_frac = [500000012 / 1000000000], mat = [''mat:A'']\<rparr>
   \<and> \<not> is_void \<lparr>vol_frac = [500000020 / 1000000000], mat = [''mat:A'']\<rparr>
   \<and> \<bar>500000012 / 1000000000 - 500000020 / 1000000000\<bar> \<le> (1 / 10 ^ 8 :: real)
   \<and> zone_of_voxel exact_close
         [(0, \<lparr>vol_frac = [1 / 2], mat = [''mat:A'']\<rparr>),
          (1, \<lparr>vol_frac = [500000012 / 1000000000], mat = [''mat:A'']\<rparr>),
          (2, \<lparr>vol_frac = [500000020 / 1000000000], mat = [''mat:A'']\<rparr>)] 1 = Some 1
   \<and> zone_of_voxel exact_close
         [(0, \<lparr>vol_frac = [1 / 2], mat = [''mat:A'']\<rparr>),
          (1, \<lparr>vol_frac = [500000012 / 1000000000], mat = [''mat:A'']\<rparr>),
          (2, \<lparr>vol_frac = [500000020 / 1000000000], mat = [''mat:A'']\<rparr>)] 2 = Some 2"
  by (simp add: is_void_def void_mats_def zone_of_voxel_def dedup_def init_state_def
      zone_step_def allclose_def exact_close_def atol_def rtol_def)

section \<open>Properties of the merged cells\<close>

lemma add_frac_length: "length (add_frac vs j m f fr) = length fr"
  by (induction vs arbitrary: j fr) auto

lemma add_frac_nth:
  "i < length fr \<Longrightarrow>
   add_frac vs j m f fr ! i =
     (if j \<le> i \<and> i < j + length vs \<and> vs ! (i - j) = m then fr ! i + f else fr ! i)"
proof (induction vs arbitrary: j fr)
  case Nil
  then show ?case by simp
next
  case (Cons val vs)
  let ?fr1 = "if m = val then fr[j := fr ! j + f] else fr"
  have len: "i < length ?fr1" using Cons.prems by simp
  have "add_frac (val # vs) j m f fr ! i = add_frac vs (Suc j) m f ?fr1 ! i" by simp
  also have "\<dots> = (if Suc j \<le> i \<and> i < Suc j + length vs \<and> vs ! (i - Suc j) = m
                    then ?fr1 ! i + f else ?fr1 ! i)"
    by (rule Cons.IH[OF len])
  also have "\<dots> = (if j \<le> i \<and> i < j + length (val # vs) \<and> (val # vs) ! (i - j) = m
                    then fr ! i + f else fr ! i)"
  proof (cases "i = j")
    case True
    then show ?thesis using Cons.prems by simp
  next
    case False
    then show ?thesis using Cons.prems
      by (cases "j < i") (auto simp: nth_Cons' Suc_diff_Suc)
  qed
  finally show ?case .
qed

lemma merge_cells_append:
  "merge_cells ma zi (rs @ rs') =
     (case merge_cells ma zi rs of Inl e \<Rightarrow> Inl e | Inr zi' \<Rightarrow> merge_cells ma zi' rs')"
  by (induction rs arbitrary: zi) (auto split: option.splits)

lemma rec_mats_append: "rec_mats ma (rs @ rs') = rec_mats ma rs @ rec_mats ma rs'"
  by (induction rs) (auto split: option.splits)

lemma frac_sum_append: "frac_sum ma (rs @ rs') m = frac_sum ma rs m + frac_sum ma rs' m"
  by (simp add: frac_sum_def)

lemma frac_sum_unseen: "m \<notin> set (rec_mats ma rs) \<Longrightarrow> frac_sum ma rs m = 0"
  by (induction rs) (auto simp: frac_sum_def split: option.splits)

lemma first_seen_snoc:
  "first_seen (xs @ [x]) = (if x \<in> set xs then first_seen xs else first_seen xs @ [x])"
  by (simp add: first_seen_def)

lemma set_first_seen: "set (first_seen xs) = set xs"
  by (simp add: first_seen_def)

lemma distinct_first_seen: "distinct (first_seen xs)"
  by (simp add: first_seen_def)

lemma merge_cells_char:
  assumes "\<forall>cf \<in> set rs. ma (fst cf) \<noteq> None"
  shows "\<exists>zi. merge_cells ma \<lparr>vol_frac = [], mat = []\<rparr> rs = Inr zi
      \<and> mat zi = first_seen (rec_mats ma rs)
      \<and> length (vol_frac zi) = length (mat zi)
      \<and> (\<forall>j < length (mat zi). vol_frac zi ! j = frac_sum ma rs (mat zi ! j))"
  using assms
proof (induction rs rule: rev_induct)
  case Nil
  then show ?case by (simp add: first_seen_def)
next
  case (snoc cf rs)
  obtain c f where cf: "cf = (c, f)" by (cases cf)
  obtain m where m: "ma c = Some m" using snoc.prems cf by auto
  obtain zi where z: "merge_cells ma \<lparr>vol_frac = [], mat = []\<rparr> rs = Inr zi"
    and mz: "mat zi = first_seen (rec_mats ma rs)"
    and lz: "length (vol_frac zi) = length (mat zi)"
    and fz: "\<forall>j < length (mat zi). vol_frac zi ! j = frac_sum ma rs (mat zi ! j)"
    using snoc by auto
  have rm: "rec_mats ma (rs @ [cf]) = rec_mats ma rs @ [m]"
    using m cf by (simp add: rec_mats_append)
  have fs: "frac_sum ma (rs @ [cf]) m' = frac_sum ma rs m' + (if m' = m then f else 0)" for m'
    using m cf by (auto simp: frac_sum_def)
  have seen: "set (mat zi) = set (rec_mats ma rs)" using mz by (simp add: set_first_seen)
  show ?case
  proof (cases "m \<in> set (mat zi)")
    case False
    let ?zi' = "zi\<lparr>mat := mat zi @ [m], vol_frac := vol_frac zi @ [f]\<rparr>"
    have 1: "merge_cells ma \<lparr>vol_frac = [], mat = []\<rparr> (rs @ [cf]) = Inr ?zi'"
      using z m cf False by (simp add: merge_cells_append)
    have 2: "mat ?zi' = first_seen (rec_mats ma (rs @ [cf]))"
      using False seen mz rm by (simp add: first_seen_snoc)
    have 3: "length (vol_frac ?zi') = length (mat ?zi')" using lz by simp
    have 4: "\<forall>j < length (mat ?zi'). vol_frac ?zi' ! j = frac_sum ma (rs @ [cf]) (mat ?zi' ! j)"
    proof (intro allI impI)
      fix j assume j: "j < length (mat ?zi')"
      show "vol_frac ?zi' ! j = frac_sum ma (rs @ [cf]) (mat ?zi' ! j)"
      proof (cases "j < length (mat zi)")
        case True
        then have "mat zi ! j \<noteq> m" using False by (metis nth_mem)
        then show ?thesis using True fz lz fs by (simp add: nth_append)
      next
        case F: False
        then have "j = length (mat zi)" using j by simp
        then show ?thesis
          using lz fs frac_sum_unseen[of m ma rs] False seen by (simp add: nth_append)
      qed
    qed
    show ?thesis using 1 2 3 4 by blast
  next
    case True
    let ?zi' = "zi\<lparr>vol_frac := add_frac (mat zi) 0 m f (vol_frac zi)\<rparr>"
    have 1: "merge_cells ma \<lparr>vol_frac = [], mat = []\<rparr> (rs @ [cf]) = Inr ?zi'"
      using z m cf True by (simp add: merge_cells_append)
    have 2: "mat ?zi' = first_seen (rec_mats ma (rs @ [cf]))"
      using True seen mz rm by (simp add: first_seen_snoc)
    have 3: "length (vol_frac ?zi') = length (mat ?zi')" using lz by (simp add: add_frac_length)
    have 4: "\<forall>j < length (mat ?zi'). vol_frac ?zi' ! j = frac_sum ma (rs @ [cf]) (mat ?zi' ! j)"
    proof (intro allI impI)
      fix j assume j: "j < length (mat ?zi')"
      then have jl: "j < length (vol_frac zi)" using lz by simp
      show "vol_frac ?zi' ! j = frac_sum ma (rs @ [cf]) (mat ?zi' ! j)"
        using add_frac_nth[OF jl, of "mat zi" 0 m f] j fz fs lz by auto
    qed
    show ?thesis using 1 2 3 4 by blast
  qed
qed

lemma group_voxels_snoc: "group_voxels (dg @ [r]) = voxel_step (group_voxels dg) r"
  by (simp add: group_voxels_def)

lemma voxel_recs_snoc:
  "voxel_recs (dg @ [(idx, c, f)]) v = voxel_recs dg v @ (if v = idx then [(c, f)] else [])"
  by (auto simp: voxel_recs_def)

lemma voxel_recs_empty: "v \<notin> fst ` set dg \<Longrightarrow> voxel_recs dg v = []"
  by (induction dg) (auto simp: voxel_recs_def)

lemma voxel_recs_nonempty: "v \<in> fst ` set dg \<Longrightarrow> voxel_recs dg v \<noteq> []"
  by (induction dg) (auto simp: voxel_recs_def)

lemma group_voxels_char:
  "distinct (map fst (group_voxels dg)) \<and> set (map fst (group_voxels dg)) = fst ` set dg
   \<and> (\<forall>vi \<in> set (group_voxels dg).
         cell (snd vi) = map fst (voxel_recs dg (fst vi))
         \<and> cell_vol_frac (snd vi) = map snd (voxel_recs dg (fst vi)))"
proof (induction dg rule: rev_induct)
  case Nil
  then show ?case by (simp add: group_voxels_def)
next
  case (snoc r dg)
  obtain idx c f where r: "r = (idx, c, f)" by (cases r)
  let ?vox = "group_voxels dg"
  let ?vox1 = "if idx \<notin> set (map fst ?vox)
               then ?vox @ [(idx, \<lparr>cell = [], cell_vol_frac = []\<rparr>)] else ?vox"
  let ?upd = "\<lambda>(k, v). if k = idx
                   then (k, v\<lparr>cell := cell v @ [c], cell_vol_frac := cell_vol_frac v @ [f]\<rparr>)
                   else (k, v)"
  have step: "group_voxels (dg @ [r]) = map ?upd ?vox1"
    by (simp add: group_voxels_snoc voxel_step_def r Let_def)
  have keys: "map fst (map ?upd ?vox1) = map fst ?vox1"
    by (auto simp: case_prod_beta)
  have d1: "distinct (map fst ?vox1)" using snoc by auto
  have s1: "set (map fst ?vox1) = fst ` set (dg @ [r])" using snoc r by auto
  have e1: "\<forall>vi \<in> set ?vox1. cell (snd vi) = map fst (voxel_recs dg (fst vi))
         \<and> cell_vol_frac (snd vi) = map snd (voxel_recs dg (fst vi))"
  proof
    fix vi assume "vi \<in> set ?vox1"
    then consider "vi \<in> set ?vox" | "idx \<notin> set (map fst ?vox)" "vi = (idx, \<lparr>cell = [], cell_vol_frac = []\<rparr>)"
      by (auto split: if_splits)
    then show "cell (snd vi) = map fst (voxel_recs dg (fst vi))
         \<and> cell_vol_frac (snd vi) = map snd (voxel_recs dg (fst vi))"
    proof cases
      case 1
      then show ?thesis using snoc by blast
    next
      case 2
      then have "idx \<notin> fst ` set dg" using snoc by simp
      then show ?thesis using 2 by (simp add: voxel_recs_empty)
    qed
  qed
  have e2: "\<forall>vi \<in> set (map ?upd ?vox1).
         cell (snd vi) = map fst (voxel_recs (dg @ [r]) (fst vi))
         \<and> cell_vol_frac (snd vi) = map snd (voxel_recs (dg @ [r]) (fst vi))"
  proof
    fix vi assume "vi \<in> set (map ?upd ?vox1)"
    then obtain wi where w: "wi \<in> set ?vox1" "vi = ?upd wi" by auto
    obtain k info where wi: "wi = (k, info)" by (cases wi)
    have old: "cell info = map fst (voxel_recs dg k)"
      "cell_vol_frac info = map snd (voxel_recs dg k)"
      using e1 w(1) wi by auto
    show "cell (snd vi) = map fst (voxel_recs (dg @ [r]) (fst vi))
         \<and> cell_vol_frac (snd vi) = map snd (voxel_recs (dg @ [r]) (fst vi))"
    proof (cases "k = idx")
      case True
      then show ?thesis using w(2) wi old r by (simp add: voxel_recs_snoc)
    next
      case False
      then show ?thesis using w(2) wi old r by (simp add: voxel_recs_snoc)
    qed
  qed
  have A: "distinct (map fst (group_voxels (dg @ [r])))"
    by (simp only: step keys d1)
  have B: "set (map fst (group_voxels (dg @ [r]))) = fst ` set (dg @ [r])"
    by (simp only: step keys s1)
  have C: "\<forall>vi \<in> set (group_voxels (dg @ [r])).
         cell (snd vi) = map fst (voxel_recs (dg @ [r]) (fst vi))
         \<and> cell_vol_frac (snd vi) = map snd (voxel_recs (dg @ [r]) (fst vi))"
    using e2 by (simp only: step)
  show ?case using A B C by blast
qed

lemma set_insort_fst: "set (insort_key fst x xs) = insert x (set xs)"
  by (induction xs) auto

lemma dict_items_set: "set (dict_items d) = set d"
  by (simp add: dict_items_def)

lemma dict_items_distinct: "distinct (map fst d) \<Longrightarrow> distinct (map fst (dict_items d))"
proof (induction d)
  case Nil
  then show ?case by (simp add: dict_items_def)
next
  case (Cons x d)
  have ins: "distinct (map fst (insort_key fst x ys)) = (fst x \<notin> fst ` set ys \<and> distinct (map fst ys))"
    for ys :: "(nat \<times> 'a) list"
    by (induction ys) (auto simp: set_insort_fst)
  show ?case using Cons by (simp add: dict_items_def ins)
qed

lemma make_zones_char:
  assumes "\<forall>vi \<in> set items. \<exists>zi. voxel_zone_info ma (snd vi) = Inr zi"
  shows "\<exists>zs. make_zones ma items = Inr zs \<and> map fst zs = map fst items
     \<and> (\<forall>vz \<in> set zs. \<exists>info. (fst vz, info) \<in> set items
            \<and> voxel_zone_info ma info = Inr (snd vz))"
  using assms
proof (induction items)
  case Nil
  then show ?case by simp
next
  case (Cons vi items)
  obtain v info where vi: "vi = (v, info)" by (cases vi)
  obtain zi where zi: "voxel_zone_info ma info = Inr zi" using Cons.prems vi by auto
  obtain zs where zs: "make_zones ma items = Inr zs" "map fst zs = map fst items"
    "\<forall>vz \<in> set zs. \<exists>info. (fst vz, info) \<in> set items \<and> voxel_zone_info ma info = Inr (snd vz)"
    using Cons by auto
  have "make_zones ma (vi # items) = Inr ((v, zi) # zs)" using vi zi zs(1) by simp
  moreover have "map fst ((v, zi) # zs) = map fst (vi # items)" using vi zs(2) by simp
  moreover have "\<forall>vz \<in> set ((v, zi) # zs). \<exists>info. (fst vz, info) \<in> set (vi # items)
            \<and> voxel_zone_info ma info = Inr (snd vz)"
    using vi zi zs(3) by auto
  ultimately show ?case by blast
qed

text \<open>
  What the first half of \<^verbatim>\<open>_get_zones\<close> builds, when every cell of the records has a
  material: one entry for each key of \<^verbatim>\<open>voxel\<close>, made from the records of that voxel.
\<close>

lemma aggregate_entries:
  assumes "cells_assigned dg mat_assigns"
  shows "\<exists>zones. aggregate dg mat_assigns = Inr zones
     \<and> map fst zones = map fst (dict_items (group_voxels dg))
     \<and> (\<forall>vc \<in> set zones.
           mat (snd vc) = first_seen (rec_mats mat_assigns (voxel_recs dg (fst vc)))
           \<and> length (vol_frac (snd vc)) = length (mat (snd vc))
           \<and> (\<forall>j < length (mat (snd vc)).
                 vol_frac (snd vc) ! j
                   = frac_sum mat_assigns (voxel_recs dg (fst vc)) (mat (snd vc) ! j)))"
proof -
  let ?items = "dict_items (group_voxels dg)"
  note g = group_voxels_char[of dg]
  have zipr: "zip (cell info) (cell_vol_frac info) = voxel_recs dg v"
    if "(v, info) \<in> set ?items" for v info
  proof -
    have "(v, info) \<in> set (group_voxels dg)" using that by (simp add: dict_items_set)
    then have "cell info = map fst (voxel_recs dg v)"
      "cell_vol_frac info = map snd (voxel_recs dg v)" using g by auto
    then show ?thesis by (simp add: zip_map_fst_snd)
  qed
  have recs_ok: "\<forall>cf \<in> set (voxel_recs dg v). mat_assigns (fst cf) \<noteq> None" for v
    using assms by (auto simp: voxel_recs_def cells_assigned_def list_all_iff)
  have each: "\<exists>zi. voxel_zone_info mat_assigns info = Inr zi
      \<and> mat zi = first_seen (rec_mats mat_assigns (voxel_recs dg v))
      \<and> length (vol_frac zi) = length (mat zi)
      \<and> (\<forall>j < length (mat zi). vol_frac zi ! j = frac_sum mat_assigns (voxel_recs dg v) (mat zi ! j))"
    if "(v, info) \<in> set ?items" for v info
    using merge_cells_char[OF recs_ok[of v]] zipr[OF that] by (simp add: voxel_zone_info_def)
  have "\<forall>vi \<in> set ?items. \<exists>zi. voxel_zone_info mat_assigns (snd vi) = Inr zi"
    using each by (metis prod.collapse)
  from make_zones_char[OF this] obtain zs where zs: "make_zones mat_assigns ?items = Inr zs"
    "map fst zs = map fst ?items"
    "\<forall>vz \<in> set zs. \<exists>info. (fst vz, info) \<in> set ?items
        \<and> voxel_zone_info mat_assigns info = Inr (snd vz)"
    by blast
  have 1: "aggregate dg mat_assigns = Inr zs" using zs(1) by (simp add: aggregate_def)
  have 2: "\<forall>vc \<in> set zs.
           mat (snd vc) = first_seen (rec_mats mat_assigns (voxel_recs dg (fst vc)))
           \<and> length (vol_frac (snd vc)) = length (mat (snd vc))
           \<and> (\<forall>j < length (mat (snd vc)).
                 vol_frac (snd vc) ! j
                   = frac_sum mat_assigns (voxel_recs dg (fst vc)) (mat (snd vc) ! j))"
  proof
    fix vc assume "vc \<in> set zs"
    then obtain info where i: "(fst vc, info) \<in> set ?items"
      "voxel_zone_info mat_assigns info = Inr (snd vc)" using zs(3) by blast
    from each[OF i(1)] i(2) show "mat (snd vc) = first_seen (rec_mats mat_assigns (voxel_recs dg (fst vc)))
           \<and> length (vol_frac (snd vc)) = length (mat (snd vc))
           \<and> (\<forall>j < length (mat (snd vc)).
                 vol_frac (snd vc) ! j
                   = frac_sum mat_assigns (voxel_recs dg (fst vc)) (mat (snd vc) ! j))"
      by auto
  qed
  show ?thesis using 1 zs(2) 2 by blast
qed

lemma aggregate_keys:
  assumes "map fst zones = map fst (dict_items (group_voxels dg))"
  shows "fst ` set zones = fst ` set dg \<and> distinct (map fst zones)"
proof -
  note g = group_voxels_char[of dg]
  have "set (map fst zones) = set (map fst (group_voxels dg))"
    using assms by (simp add: dict_items_set)
  then have "fst ` set zones = fst ` set dg" using g by simp
  moreover have "distinct (map fst zones)" using assms g dict_items_distinct by metis
  ultimately show ?thesis by simp
qed

text \<open>
  C9. When every cell of the records has a material, the first half of \<^verbatim>\<open>_get_zones\<close>
  ends without an exception and gives one entry to each voxel of the records. In the
  entry of a voxel each material appears once, the materials are those of the cells of
  the voxel in the order they are first seen, and the volume fraction at the position of
  a material is the sum of the volume fractions of the records of the voxel whose cell
  has that material.
\<close>

theorem aggregate_composition:
  assumes "cells_assigned dg mat_assigns"
  shows "\<exists>zones. aggregate dg mat_assigns = Inr zones
     \<and> fst ` set zones = fst ` set dg \<and> distinct (map fst zones)
     \<and> (\<forall>vc \<in> set zones.
           distinct (mat (snd vc))
           \<and> mat (snd vc) = first_seen (rec_mats mat_assigns (voxel_recs dg (fst vc)))
           \<and> length (vol_frac (snd vc)) = length (mat (snd vc))
           \<and> (\<forall>j < length (mat (snd vc)).
                 vol_frac (snd vc) ! j
                   = frac_sum mat_assigns (voxel_recs dg (fst vc)) (mat (snd vc) ! j)))"
proof -
  obtain zones where a: "aggregate dg mat_assigns = Inr zones"
    and k: "map fst zones = map fst (dict_items (group_voxels dg))"
    and e: "\<forall>vc \<in> set zones.
           mat (snd vc) = first_seen (rec_mats mat_assigns (voxel_recs dg (fst vc)))
           \<and> length (vol_frac (snd vc)) = length (mat (snd vc))
           \<and> (\<forall>j < length (mat (snd vc)).
                 vol_frac (snd vc) ! j
                   = frac_sum mat_assigns (voxel_recs dg (fst vc)) (mat (snd vc) ! j))"
    using aggregate_entries[OF assms] by blast
  have d: "\<forall>vc \<in> set zones. distinct (mat (snd vc))"
  proof
    fix vc assume "vc \<in> set zones"
    then have "mat (snd vc) = first_seen (rec_mats mat_assigns (voxel_recs dg (fst vc)))"
      using e by blast
    then show "distinct (mat (snd vc))" by (simp add: distinct_first_seen)
  qed
  show ?thesis using a aggregate_keys[OF k] e d by blast
qed

text \<open>
  The theorem at four records: voxel 0 meets the cells 1, 2 and 1 again, of the materials
  A, B and A; voxel 1 meets cell 2.
\<close>

theorem aggregate_composition_witness:
  "cells_assigned [(0, 1, 1 / 2), (0, 2, 1 / 4), (0, 1, 1 / 4), (1, 2, 1)]
      [1 \<mapsto> ''mat:A'', 2 \<mapsto> ''mat:B'']
   \<and> aggregate [(0, 1, 1 / 2), (0, 2, 1 / 4), (0, 1, 1 / 4), (1, 2, 1)]
        [1 \<mapsto> ''mat:A'', 2 \<mapsto> ''mat:B'']
      = Inr [(0, \<lparr>vol_frac = [3 / 4, 1 / 4], mat = [''mat:A'', ''mat:B'']\<rparr>),
             (1, \<lparr>vol_frac = [1], mat = [''mat:B'']\<rparr>)]
   \<and> (\<exists>zones. aggregate [(0, 1, 1 / 2), (0, 2, 1 / 4), (0, 1, 1 / 4), (1, 2, 1)]
           [1 \<mapsto> ''mat:A'', 2 \<mapsto> ''mat:B''] = Inr zones
     \<and> fst ` set zones = fst ` set [(0, 1, 1 / 2), (0, 2, 1 / 4), (0, 1, 1 / 4), (1 :: nat, 2 :: nat, 1 :: real)]
     \<and> distinct (map fst zones)
     \<and> (\<forall>vc \<in> set zones.
           distinct (mat (snd vc))
           \<and> mat (snd vc) = first_seen (rec_mats [1 \<mapsto> ''mat:A'', 2 \<mapsto> ''mat:B'']
                 (voxel_recs [(0, 1, 1 / 2), (0, 2, 1 / 4), (0, 1, 1 / 4), (1, 2, 1)] (fst vc)))
           \<and> length (vol_frac (snd vc)) = length (mat (snd vc))
           \<and> (\<forall>j < length (mat (snd vc)).
                 vol_frac (snd vc) ! j
                   = frac_sum [1 \<mapsto> ''mat:A'', 2 \<mapsto> ''mat:B'']
                       (voxel_recs [(0, 1, 1 / 2), (0, 2, 1 / 4), (0, 1, 1 / 4), (1, 2, 1)] (fst vc))
                       (mat (snd vc) ! j))))"
proof -
  let ?dg = "[(0, 1, 1 / 2), (0, 2, 1 / 4), (0, 1, 1 / 4), (1 :: nat, 2 :: nat, 1 :: real)]"
  let ?ma = "[(1 :: nat) \<mapsto> ''mat:A'', 2 \<mapsto> ''mat:B'']"
  have c: "cells_assigned ?dg ?ma" by (simp add: cells_assigned_def)
  have v: "aggregate ?dg ?ma
      = Inr [(0, \<lparr>vol_frac = [3 / 4, 1 / 4], mat = [''mat:A'', ''mat:B'']\<rparr>),
             (1, \<lparr>vol_frac = [1], mat = [''mat:B'']\<rparr>)]"
    by (simp add: aggregate_def group_voxels_def voxel_step_def dict_items_def
        voxel_zone_info_def)
  show ?thesis using c v aggregate_composition[OF c] by blast
qed

lemma rec_mats_nonempty:
  "rs \<noteq> [] \<Longrightarrow> \<forall>cf \<in> set rs. ma (fst cf) \<noteq> None \<Longrightarrow> rec_mats ma rs \<noteq> []"
  by (cases rs) auto

text \<open>
  The entries built for the voxels are well formed, as the theorems on the zone numbers
  assume; there is one for each voxel of the records and for no other; and none of them
  is empty: every voxel of the dictionary has a record.
\<close>

lemma aggregate_wf_zones:
  assumes "cells_assigned dg mat_assigns"
  shows "\<exists>zones. aggregate dg mat_assigns = Inr zones \<and> wf_zones (dict_items zones)
     \<and> fst ` set zones = fst ` set dg
     \<and> (\<forall>vc \<in> set zones. mat (snd vc) \<noteq> [] \<and> vol_frac (snd vc) \<noteq> [])"
proof -
  obtain zones where z: "aggregate dg mat_assigns = Inr zones"
    and ks: "map fst zones = map fst (dict_items (group_voxels dg))"
    and e: "\<forall>vc \<in> set zones.
           mat (snd vc) = first_seen (rec_mats mat_assigns (voxel_recs dg (fst vc)))
           \<and> length (vol_frac (snd vc)) = length (mat (snd vc))"
    using aggregate_entries[OF assms] by blast
  have k: "fst ` set zones = fst ` set dg" and d: "distinct (map fst zones)"
    using aggregate_keys[OF ks] by simp_all
  have wf: "wf_zones (dict_items zones)"
    using d e by (simp add: wf_zones_def dict_items_distinct list_all_iff dict_items_set wf_info_def)
  have ne: "\<forall>vc \<in> set zones. mat (snd vc) \<noteq> []"
  proof
    fix vc assume vc: "vc \<in> set zones"
    then have "fst vc \<in> fst ` set dg" using k by auto
    then have r: "voxel_recs dg (fst vc) \<noteq> []" by (rule voxel_recs_nonempty)
    have "\<forall>cf \<in> set (voxel_recs dg (fst vc)). mat_assigns (fst cf) \<noteq> None"
      using assms by (auto simp: voxel_recs_def cells_assigned_def list_all_iff)
    then have "rec_mats mat_assigns (voxel_recs dg (fst vc)) \<noteq> []"
      using r rec_mats_nonempty by blast
    then have "set (first_seen (rec_mats mat_assigns (voxel_recs dg (fst vc)))) \<noteq> {}"
      by (simp add: set_first_seen)
    then show "mat (snd vc) \<noteq> []" using e vc by auto
  qed
  have nf: "\<forall>vc \<in> set zones. mat (snd vc) \<noteq> [] \<and> vol_frac (snd vc) \<noteq> []"
  proof
    fix vc assume vc: "vc \<in> set zones"
    then have "mat (snd vc) \<noteq> []" "length (vol_frac (snd vc)) = length (mat (snd vc))"
      using ne e by auto
    then show "mat (snd vc) \<noteq> [] \<and> vol_frac (snd vc) \<noteq> []" by auto
  qed
  show ?thesis using z wf k nf by blast
qed

section \<open>Properties of the array of zone numbers\<close>

lemma fill_row_Inr:
  "fill_row vz n c = Inr row \<Longrightarrow>
     length row = c \<and> (\<forall>k < c. vz (n + k) = Some (row ! k))"
proof (induction c arbitrary: n row)
  case 0
  then show ?case by simp
next
  case (Suc c)
  from Suc.prems obtain zn r where a: "vz n = Some zn" "fill_row vz (Suc n) c = Inr r" "row = zn # r"
    by (auto split: option.splits sum.splits)
  from Suc.IH[OF a(2)] have ih: "length r = c" "\<forall>k < c. vz (Suc n + k) = Some (r ! k)" by auto
  show ?case
  proof (intro conjI allI impI)
    show "length row = Suc c" using a(3) ih(1) by simp
    fix k assume "k < Suc c"
    then show "vz (n + k) = Some (row ! k)"
      using a(1,3) ih(2) by (cases k) auto
  qed
qed

lemma fill_row_total:
  "\<forall>k < c. vz (n + k) \<noteq> None \<Longrightarrow> \<exists>row. fill_row vz n c = Inr row"
proof (induction c arbitrary: n)
  case 0
  then show ?case by simp
next
  case (Suc c)
  have "vz (n + 0) \<noteq> None" using Suc.prems by blast
  then obtain zn where zn: "vz n = Some zn" by auto
  have "\<forall>k < c. vz (Suc n + k) \<noteq> None"
  proof (intro allI impI)
    fix k assume "k < c"
    then have "vz (n + Suc k) \<noteq> None" using Suc.prems by (meson Suc_less_eq)
    then show "vz (Suc n + k) \<noteq> None" by simp
  qed
  from Suc.IH[OF this] obtain r where "fill_row vz (Suc n) c = Inr r" by blast
  then show ?case using zn by simp
qed

lemma fill_row_error: "fill_row vz n c = Inl e \<Longrightarrow> e = KeyError"
  by (induction c arbitrary: n) (auto split: option.splits sum.splits)

lemma fill_rows_error: "fill_rows vz n cols r = Inl e \<Longrightarrow> e = KeyError"
  by (induction r arbitrary: n) (auto split: sum.splits dest: fill_row_error)

lemma fill_rows_Inr:
  "fill_rows vz n cols r = Inr Z \<Longrightarrow>
     length Z = r \<and> (\<forall>row \<in> set Z. length row = cols)
     \<and> (\<forall>i < r. \<forall>j < cols. vz (n + i * cols + j) = Some (Z ! i ! j))"
proof (induction r arbitrary: n Z)
  case 0
  then show ?case by simp
next
  case (Suc r)
  from Suc.prems obtain row rows where a: "fill_row vz n cols = Inr row"
    "fill_rows vz (n + cols) cols r = Inr rows" "Z = row # rows"
    by (auto split: sum.splits)
  note fr = fill_row_Inr[OF a(1)]
  from Suc.IH[OF a(2)] have ih: "length rows = r" "\<forall>row \<in> set rows. length row = cols"
    "\<forall>i < r. \<forall>j < cols. vz (n + cols + i * cols + j) = Some (rows ! i ! j)" by auto
  show ?case
  proof (intro conjI allI impI ballI)
    show "length Z = Suc r" using a(3) ih(1) by simp
    fix rw assume "rw \<in> set Z"
    then show "length rw = cols" using a(3) fr ih(2) by auto
  next
    fix i j assume ij: "i < Suc r" "j < cols"
    show "vz (n + i * cols + j) = Some (Z ! i ! j)"
    proof (cases i)
      case 0
      then show ?thesis using fr ij(2) a(3) by simp
    next
      case (Suc i')
      then have "i' < r" using ij(1) by simp
      then have "vz (n + cols + i' * cols + j) = Some (rows ! i' ! j)" using ih(3) ij(2) by blast
      then show ?thesis using Suc a(3) by (simp add: add.assoc add.left_commute)
    qed
  qed
qed

lemma fill_rows_total:
  "\<forall>k < r * cols. vz (n + k) \<noteq> None \<Longrightarrow> \<exists>Z. fill_rows vz n cols r = Inr Z"
proof (induction r arbitrary: n)
  case 0
  then show ?case by simp
next
  case (Suc r)
  have "\<forall>k < cols. vz (n + k) \<noteq> None" using Suc.prems by simp
  from fill_row_total[OF this] obtain row where row: "fill_row vz n cols = Inr row" by blast
  have "\<forall>k < r * cols. vz (n + cols + k) \<noteq> None"
  proof (intro allI impI)
    fix k assume "k < r * cols"
    then have "cols + k < Suc r * cols" by simp
    then have "vz (n + (cols + k)) \<noteq> None" using Suc.prems by blast
    then show "vz (n + cols + k) \<noteq> None" by (simp add: add.assoc)
  qed
  from Suc.IH[OF this] obtain rows where "fill_rows vz (n + cols) cols r = Inr rows" by blast
  then show ?case using row by simp
qed

lemma fill_rows_all_present:
  assumes "fill_rows vz n cols r = Inr Z" and "k < r * cols"
  shows "vz (n + k) \<noteq> None"
proof -
  have c: "0 < cols" using assms(2) by (cases cols) auto
  have i: "k div cols < r" using assms(2) c by (simp add: less_mult_imp_div_less)
  have j: "k mod cols < cols" using c by simp
  from fill_rows_Inr[OF assms(1)] i j
  have "vz (n + (k div cols) * cols + k mod cols) = Some (Z ! (k div cols) ! (k mod cols))"
    by blast
  moreover have "n + (k div cols) * cols + k mod cols = n + k" by simp
  ultimately show ?thesis by simp
qed

lemma get_coord_sys_bounds:
  assumes "get_coord_sys m = Inr (g, bounds)" and "k \<in> {''x'', ''y'', ''z''}"
  shows "bounds k = (if active m k then Some (structured_get_divisions m k) else None)"
  using assms
  by (cases "active m ''x''"; cases "active m ''y''"; cases "active m ''z''")
     (auto simp: get_coord_sys_def active_def Let_def)

lemma intervals_axis_size:
  assumes "get_coord_sys m = Inr (g, bounds)" and "k \<in> {''x'', ''y'', ''z''}"
  shows "intervals bounds k = int (axis_size m k)"
proof (cases "active m k")
  case True
  then have "bounds k = Some (structured_get_divisions m k)"
    using get_coord_sys_bounds[OF assms] by simp
  moreover have "1 \<le> length (structured_get_divisions m k)" using True by (simp add: active_def)
  ultimately show ?thesis using True by (simp add: intervals_def axis_size_def of_nat_diff)
next
  case False
  then have "bounds k = None" using get_coord_sys_bounds[OF assms] by simp
  then show ?thesis using False by (simp add: intervals_def axis_size_def)
qed

lemma build_ZONES_Inr:
  assumes "build_ZONES vz bounds = Inr Z"
  shows "0 \<le> intervals bounds ''x'' \<and> 0 \<le> intervals bounds ''y'' * intervals bounds ''z''
     \<and> fill_rows vz 0 (nat (intervals bounds ''y'' * intervals bounds ''z''))
          (nat (intervals bounds ''x'')) = Inr Z"
  using assms by (auto simp: build_ZONES_def Let_def split: if_splits)

lemma spec_shape_x_active:
  "active m ''x'' \<Longrightarrow> spec_shape m = (axis_size m ''x'', axis_size m ''y'' * axis_size m ''z'')"
  by (simp add: spec_shape_def axis_size_def)

lemma spec_shape_x_inactive:
  assumes "\<not> active m ''x''" and "active m ''y'' \<or> active m ''z''"
  shows "2 \<le> fst (spec_shape m) \<and> axis_size m ''x'' = 1"
proof (cases "active m ''y''")
  case True
  then show ?thesis using assms(1) by (simp add: spec_shape_def axis_size_def active_def)
next
  case False
  then have "active m ''z''" using assms(2) by simp
  then show ?thesis using assms(1) False
    by (simp add: spec_shape_def axis_size_def active_def)
qed

lemma get_coord_sys_some_active:
  assumes "get_coord_sys m = Inr gb"
  shows "active m ''x'' \<or> active m ''y'' \<or> active m ''z''"
proof (rule ccontr)
  assume "\<not> (active m ''x'' \<or> active m ''y'' \<or> active m ''z'')"
  then have "get_coord_sys m = Inl UnboundLocalError"
    by (simp add: get_coord_sys_def active_def Let_def)
  then show False using assms by simp
qed

text \<open>
  C4, as the code has it. The array has as many rows as the x axis has intervals, one
  row when x is not active; every row has as many columns as the product of the intervals
  of y and of z, each counted as 1 when the axis is not active. This is the shape of the
  specification exactly when x is active.
\<close>

theorem zones_array_shape:
  assumes "zones_array m vz = Inr Z"
  shows "length Z = axis_size m ''x''
     \<and> (\<forall>row \<in> set Z. length row = axis_size m ''y'' * axis_size m ''z'')
     \<and> (active m ''x'' \<longleftrightarrow>
          (axis_size m ''x'', axis_size m ''y'' * axis_size m ''z'') = spec_shape m)"
proof -
  from assms obtain g bounds where c: "get_coord_sys m = Inr (g, bounds)"
    and b: "build_ZONES vz bounds = Inr Z"
    by (auto simp: zones_array_def split: sum.splits)
  have ix: "intervals bounds ''x'' = int (axis_size m ''x'')"
    and iy: "intervals bounds ''y'' = int (axis_size m ''y'')"
    and iz: "intervals bounds ''z'' = int (axis_size m ''z'')"
    using intervals_axis_size[OF c] by simp_all
  have "fill_rows vz 0 (nat (int (axis_size m ''y'') * int (axis_size m ''z'')))
          (nat (int (axis_size m ''x''))) = Inr Z"
    using build_ZONES_Inr[OF b] ix iy iz by simp
  then have "fill_rows vz 0 (axis_size m ''y'' * axis_size m ''z'') (axis_size m ''x'') = Inr Z"
    by (simp add: nat_mult_distrib)
  then have rows: "length Z = axis_size m ''x''
      \<and> (\<forall>row \<in> set Z. length row = axis_size m ''y'' * axis_size m ''z'')"
    using fill_rows_Inr by blast
  have conv: "active m ''x''"
    if e: "(axis_size m ''x'', axis_size m ''y'' * axis_size m ''z'') = spec_shape m"
  proof (rule ccontr)
    assume n: "\<not> active m ''x''"
    then have "active m ''y'' \<or> active m ''z''" using get_coord_sys_some_active[OF c] by simp
    from spec_shape_x_inactive[OF n this] e show False by (metis fst_conv one_add_one
          not_one_le_zero add_le_same_cancel1)
  qed
  have "active m ''x'' \<longleftrightarrow>
      (axis_size m ''x'', axis_size m ''y'' * axis_size m ''z'') = spec_shape m"
    using conv spec_shape_x_active[of m] by auto
  then show ?thesis using rows by simp
qed

text \<open>
  The theorem at a mesh with two intervals on x and three on y: two rows of three.
\<close>

theorem zones_array_shape_witness:
  "zones_array \<lparr>structured_get_divisions =
       (\<lambda>k. if k = ''x'' then [0, 1, 2] else if k = ''y'' then [0, 1, 2, 3] else [0, 1])\<rparr>
     (\<lambda>n. if n < 6 then Some (n + 1) else None) = Inr [[1, 2, 3], [4, 5, 6]]
   \<and> length [[1, 2, 3], [4, 5, 6 :: nat]] = axis_size \<lparr>structured_get_divisions =
       (\<lambda>k. if k = ''x'' then [0, 1, 2] else if k = ''y'' then [0, 1, 2, 3] else [0, 1])\<rparr> ''x''
   \<and> spec_shape \<lparr>structured_get_divisions =
       (\<lambda>k. if k = ''x'' then [0, 1, 2] else if k = ''y'' then [0, 1, 2, 3] else [0, 1])\<rparr> = (2, 3)"
proof -
  let ?m = "\<lparr>structured_get_divisions =
       (\<lambda>k. if k = ''x'' then [0, 1, 2] else if k = ''y'' then [0, 1, 2, 3] else [0, 1 :: real])\<rparr>"
  let ?vz = "\<lambda>n :: nat. if n < 6 then Some (n + 1) else None"
  have z: "zones_array ?m ?vz = Inr [[1, 2, 3], [4, 5, 6]]"
    by (simp add: zones_array_def get_coord_sys_def build_ZONES_def intervals_def Let_def
        eval_nat_numeral)
  have s: "spec_shape ?m = (2, 3)" by (simp add: spec_shape_def active_def)
  show ?thesis using z s zones_array_shape[OF z] by simp
qed

text \<open>
  The rows are not those of the first active axis: with y and z active and x not, the
  array is one row of six columns, where the specification has two rows of three.
\<close>

theorem zones_array_rows_are_x:
  "zones_array \<lparr>structured_get_divisions =
       (\<lambda>k. if k = ''x'' then [0, 1] else if k = ''y'' then [0, 1, 2] else [0, 1, 2, 3])\<rparr>
     (\<lambda>n. if n < 6 then Some 1 else None) = Inr [[1, 1, 1, 1, 1, 1]]
   \<and> spec_shape \<lparr>structured_get_divisions =
       (\<lambda>k. if k = ''x'' then [0, 1] else if k = ''y'' then [0, 1, 2] else [0, 1, 2, 3])\<rparr> = (2, 3)"
  by (simp add: zones_array_def get_coord_sys_def build_ZONES_def intervals_def Let_def
      eval_nat_numeral spec_shape_def active_def)

text \<open>
  C5, as the code has it. When the dimensions are not negative, the array builder
  raises \<^verbatim>\<open>KeyError\<close> exactly when a voxel number below rows times columns has no zone;
  so it does whenever the voxels are fewer than the cells of the array, and it never
  pads.
\<close>

theorem zones_array_missing_voxel:
  assumes "0 \<le> intervals bounds ''x''"
    and "0 \<le> intervals bounds ''y'' * intervals bounds ''z''"
  shows "(build_ZONES vz bounds = Inl KeyError
          \<longleftrightarrow> (\<exists>n < nat (intervals bounds ''x'' * (intervals bounds ''y'' * intervals bounds ''z'')).
                 vz n = None))
     \<and> (finite (dom vz)
          \<and> card (dom vz) < nat (intervals bounds ''x'' * (intervals bounds ''y'' * intervals bounds ''z''))
        \<longrightarrow> build_ZONES vz bounds = Inl KeyError)"
proof -
  let ?r = "nat (intervals bounds ''x'')"
  let ?c = "nat (intervals bounds ''y'' * intervals bounds ''z'')"
  let ?t = "nat (intervals bounds ''x'' * (intervals bounds ''y'' * intervals bounds ''z''))"
  have t: "?t = ?r * ?c" using assms by (simp add: nat_mult_distrib)
  have b: "build_ZONES vz bounds = fill_rows vz 0 ?c ?r"
    using assms by (simp add: build_ZONES_def Let_def)
  have iff: "build_ZONES vz bounds = Inl KeyError \<longleftrightarrow> (\<exists>n < ?t. vz n = None)"
  proof
    assume e: "build_ZONES vz bounds = Inl KeyError"
    show "\<exists>n < ?t. vz n = None"
    proof (rule ccontr)
      assume "\<not> (\<exists>n < ?t. vz n = None)"
      then have "\<forall>k < ?r * ?c. vz (0 + k) \<noteq> None" using t by simp
      from fill_rows_total[OF this] show False using e b by simp
    qed
  next
    assume "\<exists>n < ?t. vz n = None"
    then obtain n where n: "n < ?r * ?c" "vz n = None" using t by auto
    show "build_ZONES vz bounds = Inl KeyError"
    proof (cases "fill_rows vz 0 ?c ?r")
      case (Inl e)
      then show ?thesis using b fill_rows_error by metis
    next
      case (Inr Z)
      from fill_rows_all_present[OF Inr n(1)] n(2) show ?thesis by simp
    qed
  qed
  have small: "build_ZONES vz bounds = Inl KeyError"
    if f: "finite (dom vz)" and c: "card (dom vz) < ?t"
  proof -
    have "\<exists>n < ?t. vz n = None"
    proof (rule ccontr)
      assume "\<not> (\<exists>n < ?t. vz n = None)"
      then have "{0..<?t} \<subseteq> dom vz" by (auto simp: dom_def)
      then have "card {0..<?t} \<le> card (dom vz)" using f by (rule card_mono[rotated])
      then show False using c by simp
    qed
    then show ?thesis using iff by simp
  qed
  show ?thesis using iff small by blast
qed

text \<open>
  The theorem at one voxel for an array of two cells.
\<close>

theorem zones_array_missing_voxel_witness:
  "0 \<le> intervals [''x'' \<mapsto> [0, 1, 2]] ''x''
   \<and> 0 \<le> intervals [''x'' \<mapsto> [0, 1, 2]] ''y'' * intervals [''x'' \<mapsto> [0, 1, 2]] ''z''
   \<and> finite (dom [(0::nat) \<mapsto> (1::nat)])
   \<and> card (dom [(0::nat) \<mapsto> (1::nat)]) < nat (intervals [''x'' \<mapsto> [0, 1, 2]] ''x''
        * (intervals [''x'' \<mapsto> [0, 1, 2]] ''y'' * intervals [''x'' \<mapsto> [0, 1, 2]] ''z''))
   \<and> build_ZONES [(0::nat) \<mapsto> (1::nat)] [''x'' \<mapsto> [0, 1, 2]] = Inl KeyError"
proof -
  let ?b = "[''x'' \<mapsto> [0, 1, 2 :: real]]"
  have 1: "0 \<le> intervals ?b ''x''" and 2: "0 \<le> intervals ?b ''y'' * intervals ?b ''z''"
    by (simp_all add: intervals_def)
  have 3: "finite (dom [(0::nat) \<mapsto> (1::nat)])" by simp
  have 4: "card (dom [(0::nat) \<mapsto> (1::nat)]) < nat (intervals ?b ''x'' * (intervals ?b ''y'' * intervals ?b ''z''))"
    by (simp add: intervals_def)
  show ?thesis using 1 2 3 4 zones_array_missing_voxel[OF 1 2, of "[(0::nat) \<mapsto> (1::nat)]"] by blast
qed

text \<open>
  A voxel set larger than the array raises nothing: with three voxels and an array of
  two cells the array holds the zones of the voxels 0 and 1.
\<close>

theorem zones_array_truncates:
  "card (dom [(0::nat) \<mapsto> (1::nat), 1 \<mapsto> 1, 2 \<mapsto> 2]) = 3
   \<and> intervals [''x'' \<mapsto> [0, 1, 2]] ''x''
       * (intervals [''x'' \<mapsto> [0, 1, 2]] ''y'' * intervals [''x'' \<mapsto> [0, 1, 2]] ''z'') = 2
   \<and> build_ZONES [(0::nat) \<mapsto> (1::nat), 1 \<mapsto> 1, 2 \<mapsto> 2] [''x'' \<mapsto> [0, 1, 2]] = Inr [[1], [1]]"
  by (simp add: intervals_def build_ZONES_def Let_def eval_nat_numeral)

section \<open>A voxel without record\<close>

lemma build_ZONES_missing:
  assumes "0 \<le> intervals bounds ''x''"
    and "0 \<le> intervals bounds ''y'' * intervals bounds ''z''"
    and "n < nat (intervals bounds ''x'' * (intervals bounds ''y'' * intervals bounds ''z''))"
    and "vz n = None"
  shows "build_ZONES vz bounds = Inl KeyError"
proof -
  let ?r = "nat (intervals bounds ''x'')"
  let ?c = "nat (intervals bounds ''y'' * intervals bounds ''z'')"
  have n: "n < ?r * ?c" using assms(1,2,3) by (simp add: nat_mult_distrib)
  have b: "build_ZONES vz bounds = fill_rows vz 0 ?c ?r"
    using assms(1,2) by (simp add: build_ZONES_def Let_def)
  show ?thesis
  proof (cases "fill_rows vz 0 ?c ?r")
    case (Inl e)
    then show ?thesis using b fill_rows_error by metis
  next
    case (Inr Z)
    from fill_rows_all_present[OF Inr n] assms(4) show ?thesis by simp
  qed
qed

text \<open>
  C6, as the code has it. No voxel that reaches the loop over the zones has an empty
  entry: the dictionary has a voxel only with a record, so every entry has a material and
  a volume fraction. A voxel without any record has no entry and gets no zone number,
  and when its number is below rows times columns \<^verbatim>\<open>_get_zones\<close> raises \<^verbatim>\<open>KeyError\<close>
  at \<^verbatim>\<open>voxel_zone[n]\<close>; it is not given zone 0.
\<close>

theorem voxel_without_record_raises:
  assumes "cells_assigned dg mat_assigns" and "v \<notin> fst ` set dg"
    and "0 \<le> intervals bounds ''x''"
    and "0 \<le> intervals bounds ''y'' * intervals bounds ''z''"
    and "v < nat (intervals bounds ''x'' * (intervals bounds ''y'' * intervals bounds ''z''))"
  shows "(\<exists>zones. aggregate dg mat_assigns = Inr zones \<and> v \<notin> fst ` set zones
            \<and> (\<forall>vc \<in> set zones. mat (snd vc) \<noteq> [] \<and> vol_frac (snd vc) \<noteq> [])
            \<and> zone_of_voxel cl (dict_items zones) v = None)
     \<and> get_zones cl dg mat_assigns bounds = Inl KeyError"
proof -
  obtain zones where z: "aggregate dg mat_assigns = Inr zones"
    and wf: "wf_zones (dict_items zones)" and k: "fst ` set zones = fst ` set dg"
    and ne: "\<forall>vc \<in> set zones. mat (snd vc) \<noteq> [] \<and> vol_frac (snd vc) \<noteq> []"
    using aggregate_wf_zones[OF assms(1)] by blast
  obtain st where d: "dedup cl (dict_items zones) = Inr st"
    using dedup_basic[OF wf, of cl] by blast
  have "dom (voxel_zone st) = fst ` set (dict_items zones)" by (rule dedup_dom[OF wf d])
  then have "dom (voxel_zone st) = fst ` set dg" using k by (simp add: dict_items_set)
  then have none: "voxel_zone st v = None" using assms(2) by (auto simp: dom_def)
  have zv: "zone_of_voxel cl (dict_items zones) v = None"
    using d none by (simp add: zone_of_voxel_def)
  have nk: "v \<notin> fst ` set zones" using k assms(2) by simp
  have "build_ZONES (voxel_zone st) bounds = Inl KeyError"
    by (rule build_ZONES_missing[where vz = "voxel_zone st" and n = v, OF assms(3,4,5) none])
  then have g: "get_zones cl dg mat_assigns bounds = Inl KeyError"
    using z d by (simp add: get_zones_def)
  show ?thesis using z nk ne zv g by blast
qed

text \<open>
  The theorem at a mesh of two voxels along x, where only voxel 0 has a record.
\<close>

theorem voxel_without_record_raises_witness:
  "cells_assigned [(0, 5, 1)] [5 \<mapsto> ''mat:A'']
   \<and> Suc 0 \<notin> fst ` set [(0 :: nat, 5 :: nat, 1 :: real)]
   \<and> 0 \<le> intervals [''x'' \<mapsto> [0, 1, 2]] ''x''
   \<and> 0 \<le> intervals [''x'' \<mapsto> [0, 1, 2]] ''y'' * intervals [''x'' \<mapsto> [0, 1, 2]] ''z''
   \<and> Suc 0 < nat (intervals [''x'' \<mapsto> [0, 1, 2]] ''x''
         * (intervals [''x'' \<mapsto> [0, 1, 2]] ''y'' * intervals [''x'' \<mapsto> [0, 1, 2]] ''z''))
   \<and> (\<exists>zones. aggregate [(0, 5, 1)] [5 \<mapsto> ''mat:A''] = Inr zones
          \<and> Suc 0 \<notin> fst ` set zones
          \<and> (\<forall>vc \<in> set zones. mat (snd vc) \<noteq> [] \<and> vol_frac (snd vc) \<noteq> [])
          \<and> zone_of_voxel exact_close (dict_items zones) (Suc 0) = None)
   \<and> get_zones exact_close [(0, 5, 1)] [5 \<mapsto> ''mat:A''] [''x'' \<mapsto> [0, 1, 2]] = Inl KeyError"
proof -
  let ?dg = "[(0 :: nat, 5 :: nat, 1 :: real)]"
  let ?ma = "[(5 :: nat) \<mapsto> ''mat:A'']"
  let ?b = "[''x'' \<mapsto> [0, 1, 2 :: real]]"
  have 1: "cells_assigned ?dg ?ma" by (simp add: cells_assigned_def)
  have 2: "Suc 0 \<notin> fst ` set ?dg" by simp
  have 3: "0 \<le> intervals ?b ''x''" and 4: "0 \<le> intervals ?b ''y'' * intervals ?b ''z''"
    by (simp_all add: intervals_def)
  have 5: "Suc 0 < nat (intervals ?b ''x'' * (intervals ?b ''y'' * intervals ?b ''z''))"
    by (simp add: intervals_def)
  note t = voxel_without_record_raises[OF 1 2 3 4 5, of exact_close]
  show ?thesis using 1 2 3 4 5 t by (intro conjI) blast+
qed

text \<open>
  A voxel without record is not given zone 0. With two voxels along x and a record for
  voxel 0 only, voxel 1 has no entry and no zone number, and \<^verbatim>\<open>_get_zones\<close> raises
  \<^verbatim>\<open>KeyError\<close> when the array reads \<^verbatim>\<open>voxel_zone[1]\<close>.
\<close>

theorem voxel_without_record_not_zone_zero:
  "aggregate [(0, 5, 1)] [5 \<mapsto> ''mat:A''] = Inr [(0, \<lparr>vol_frac = [1], mat = [''mat:A'']\<rparr>)]
   \<and> zone_of_voxel exact_close [(0, \<lparr>vol_frac = [1], mat = [''mat:A'']\<rparr>)] 1 = None
   \<and> get_zones exact_close [(0, 5, 1)] [5 \<mapsto> ''mat:A''] [''x'' \<mapsto> [0, 1, 2]] = Inl KeyError"
  by (simp add: aggregate_def group_voxels_def voxel_step_def dict_items_def
      voxel_zone_info_def zone_of_voxel_def get_zones_def dedup_def init_state_def
      zone_step_def void_mats_def build_ZONES_def intervals_def Let_def eval_nat_numeral)

section \<open>No active axis\<close>

text \<open>
  C8. With no active axis \<^verbatim>\<open>_get_coord_sys\<close> raises (\<^verbatim>\<open>UnboundLocalError\<close>: no
  branch has assigned \<^verbatim>\<open>IGEOM\<close>), and \<^verbatim>\<open>write_partisn_input\<close> ends with that exception
  whatever the records and the materials are: \<^verbatim>\<open>_get_zones\<close> is not reached.
\<close>

theorem no_active_axis_raises:
  assumes "\<not> active m ''x''" and "\<not> active m ''y''" and "\<not> active m ''z''"
  shows "get_coord_sys m = Inl UnboundLocalError
     \<and> write_partisn_input cl m names_dict mats_collapsed dg mat_assigns = Inl UnboundLocalError"
proof -
  have "get_coord_sys m = Inl UnboundLocalError"
    using assms by (simp add: get_coord_sys_def active_def Let_def)
  then show ?thesis by (simp add: write_partisn_input_def)
qed

text \<open>
  The theorem at a mesh of two divisions on every axis, with a record whose cell has no
  material.
\<close>

theorem no_active_axis_raises_witness:
  "\<not> active \<lparr>structured_get_divisions = (\<lambda>k. [0, 1])\<rparr> ''x''
   \<and> \<not> active \<lparr>structured_get_divisions = (\<lambda>k. [0, 1])\<rparr> ''y''
   \<and> \<not> active \<lparr>structured_get_divisions = (\<lambda>k. [0, 1])\<rparr> ''z''
   \<and> get_coord_sys \<lparr>structured_get_divisions = (\<lambda>k. [0, 1])\<rparr> = Inl UnboundLocalError
   \<and> write_partisn_input exact_close \<lparr>structured_get_divisions = (\<lambda>k. [0, 1])\<rparr> (Some [])
        [] [(0, 7, 1)] Map.empty = Inl UnboundLocalError"
proof -
  let ?m = "\<lparr>structured_get_divisions = (\<lambda>k. [0, 1 :: real])\<rparr>"
  have a: "\<not> active ?m ''x''" "\<not> active ?m ''y''" "\<not> active ?m ''z''"
    by (simp_all add: active_def)
  show ?thesis
    using a no_active_axis_raises[OF a, of exact_close "Some []" "[]" "[(0, 7, 1)]" Map.empty]
    by simp
qed

section \<open>Properties of the material library\<close>

lemma set_dens_fold:
  "store s comp_list_addr = Some acc \<Longrightarrow>
   store (foldl set_dens s items) comp_list_addr
     = Some (acc ++ map_of (rev (map scale_dens items)))
   \<and> mat_lib (foldl set_dens s items) = mat_lib s"
proof (induction items arbitrary: s acc)
  case Nil
  then show ?case by simp
next
  case (Cons nd items)
  let ?s1 = "set_dens s nd"
  let ?acc1 = "acc(fst (scale_dens nd) \<mapsto> snd (scale_dens nd))"
  have s1: "store ?s1 comp_list_addr = Some ?acc1"
    and m1: "mat_lib ?s1 = mat_lib s"
    using Cons.prems by (simp_all add: set_dens_def scale_dens_def case_prod_beta)
  have "map_of (rev (map scale_dens (nd # items)))
      = map_of [scale_dens nd] ++ map_of (rev (map scale_dens items))"
    by (simp add: map_of_append del: map_of.simps)
  then have e: "acc ++ map_of (rev (map scale_dens (nd # items)))
      = ?acc1 ++ map_of (rev (map scale_dens items))"
    by (simp add: map_add_assoc [symmetric] map_add_def fun_eq_iff split: option.splits)
  from Cons.IH[OF s1]
  have ih1: "store (foldl set_dens ?s1 items) comp_list_addr
      = Some (?acc1 ++ map_of (rev (map scale_dens items)))"
    and ih2: "mat_lib (foldl set_dens ?s1 items) = mat_lib ?s1"
    by blast+
  show ?case using ih1 ih2 m1 e by (simp only: foldl.simps)
qed

lemma all_dens_snoc:
  "all_dens (done @ [(name, items)])
     = all_dens done ++ map_of (rev (map scale_dens items))"
  by (simp add: all_dens_def scaled_items_def rev_map)

lemma matlib_step_inv:
  assumes "matlib_inv s done"
  shows "matlib_inv (matlib_step s (name, items)) (done @ [(name, items)])"
proof -
  from assms have st: "store s comp_list_addr = Some (all_dens done)"
    and ml: "\<forall>n. mat_lib s n = (if n \<in> fst ` set done then Some comp_list_addr else None)"
    by (simp_all add: matlib_inv_def)
  note f = set_dens_fold[OF st, of items]
  show ?thesis
    using f ml by (auto simp: matlib_inv_def matlib_step_def Let_def all_dens_snoc)
qed

lemma get_material_lib_inv: "matlib_inv (get_material_lib mats) mats"
proof (induction mats rule: rev_induct)
  case Nil
  then show ?case
    by (simp add: get_material_lib_def matlib_inv_def all_dens_def scaled_items_def)
next
  case (snoc mc mats)
  obtain name items where mc: "mc = (name, items)" by (cases mc)
  have "get_material_lib (mats @ [mc]) = matlib_step (get_material_lib mats) (name, items)"
    by (simp add: get_material_lib_def mc)
  then show ?case using matlib_step_inv[OF snoc] mc by simp
qed

text \<open>
  C10. Every material name of the library maps to the one dictionary \<^verbatim>\<open>comp_list\<close>,
  and what the caller reads under any name is the dictionary of the densities of all
  materials: its keys are the nuclides of all of them.
\<close>

theorem material_lib_shared_accumulator:
  assumes "name \<in> fst ` set mats_collapsed"
  shows "mat_lib (get_material_lib mats_collapsed) name = Some comp_list_addr
     \<and> mat_comp (get_material_lib mats_collapsed) name = Some (all_dens mats_collapsed)
     \<and> dom (all_dens mats_collapsed) = fst ` set (concat (map snd mats_collapsed))"
proof -
  note i = get_material_lib_inv[of mats_collapsed]
  have 1: "mat_lib (get_material_lib mats_collapsed) name = Some comp_list_addr"
    using i assms by (simp add: matlib_inv_def)
  have 2: "mat_comp (get_material_lib mats_collapsed) name = Some (all_dens mats_collapsed)"
    using i 1 by (simp add: mat_comp_def matlib_inv_def)
  have 3: "dom (all_dens mats_collapsed) = fst ` set (concat (map snd mats_collapsed))"
    by (simp add: all_dens_def scaled_items_def scale_dens_def dom_map_of_conv_image_fst
        image_image del: set_concat)
  show ?thesis using 1 2 3 by simp
qed

text \<open>
  The theorem at two materials of one nuclide each: under the name A the caller reads
  both nuclides, the second with the density of B, where the densities of A alone have
  no such key.
\<close>

theorem material_lib_shared_accumulator_witness:
  "''A'' \<in> fst ` set [(''A'', [(10010000 :: nat, 2 :: real)]), (''B'', [(80160000, 3)])]
   \<and> mat_lib (get_material_lib [(''A'', [(10010000, 2)]), (''B'', [(80160000, 3)])]) ''A''
       = Some comp_list_addr
   \<and> mat_comp (get_material_lib [(''A'', [(10010000, 2)]), (''B'', [(80160000, 3)])]) ''A''
       = Some (all_dens [(''A'', [(10010000, 2)]), (''B'', [(80160000, 3)])])
   \<and> dom (all_dens [(''A'', [(10010000, 2)]), (''B'', [(80160000, 3)])]) = {10010000, 80160000}
   \<and> own_dens [(10010000, 2)] 80160000 = None
   \<and> all_dens [(''A'', [(10010000, 2)]), (''B'', [(80160000, 3)])] 80160000 = Some (3 / 10 ^ 24)"
proof -
  let ?m = "[(''A'', [(10010000 :: nat, 2 :: real)]), (''B'', [(80160000, 3)])]"
  have a: "''A'' \<in> fst ` set ?m" by simp
  have o: "own_dens [(10010000, 2)] 80160000 = None" by (simp add: own_dens_def scale_dens_def)
  have d: "all_dens ?m 80160000 = Some (3 / 10 ^ 24)"
    by (simp add: all_dens_def scaled_items_def scale_dens_def)
  have s: "fst ` set (concat (map snd ?m)) = {10010000, 80160000}" by auto
  show ?thesis using a o d s material_lib_shared_accumulator[OF a] by simp
qed

end
